(* ===== verification/Prelude.thy ===== *)
theory Prelude
  imports Main "HOL-Library.Word"
begin

text \<open>
  Shared vocabulary of the development.

  \<^item> Machine integers of the x86-64 targets of the repository: \<open>u8\<close> \<dots> \<open>u64\<close> for the
    unsigned types, \<open>i32\<close> and \<open>i64\<close> for \<^verbatim>\<open>int\<close>, \<^verbatim>\<open>long\<close> and \<^verbatim>\<open>long long\<close> as bit
    patterns (\<open>sint\<close> reads the signed value); \<open>cint\<close> for values the code only compares.
  \<^item> \<open>run\<close> and \<open>iterate\<close>: the loops of the programs. One iteration is a body that takes what
    the outside world answers in that iteration; the loop is run over a finite list of such
    answers, and \<open>Running\<close> says that the loop is still going when the answers are used up.
  \<^item> The locales \<open>inv_loop\<close> (an invariant of the body is an invariant of the loop),
    \<open>counting_loop\<close> (under it every completed iteration advances a quantity by the same step)
    and \<open>cyclic_loop\<close> (and appends a trace entry for its value). The theories of the loops
    interpret them on the bodies.
  \<^item> The locale \<open>step_invariant\<close>: the contract of the step relations of the concurrent parts.
  \<^item> The locale \<open>struct_codec\<close>: the contract of the structures that travel as raw bytes.
  \<^item> Byte buffers: little-endian images of integers, reading and overwriting a slice, and the
    round-trip lemmas, collected in \<open>bytes_simps\<close>.
\<close>

named_theorems bytes_simps \<open>reading slices of byte buffers back after writing them\<close>
named_theorems run_simps \<open>evaluation of one loop iteration\<close>

type_synonym u8 = "8 word"
type_synonym u16 = "16 word"
type_synonym u32 = "32 word"
type_synonym u64 = "64 word"
type_synonym i32 = "32 word"
type_synonym i64 = "64 word"
type_synonym cint = int
type_synonym fd = int
type_synonym bytes = "u8 list"

section \<open>Loops\<close>

datatype ('x, 's) run = Running 's | Done 's | Exited 'x 's

primrec run_state :: "('x, 's) run \<Rightarrow> 's" where
  "run_state (Running s) = s"
| "run_state (Done s) = s"
| "run_state (Exited x s) = s"

fun iterate :: "('i \<Rightarrow> 's \<Rightarrow> ('x, 's) run) \<Rightarrow> 'i list \<Rightarrow> 's \<Rightarrow> ('x, 's) run" where
  "iterate body [] s = Running s"
| "iterate body (i # is) s =
     (case body i s of
        Running s' \<Rightarrow> iterate body is s'
      | Done s' \<Rightarrow> Done s'
      | Exited x s' \<Rightarrow> Exited x s')"

section \<open>Byte buffers\<close>

text \<open>The little-endian image of a number in \<open>n\<close> bytes, and the number a byte string denotes.\<close>

fun le_enc :: "nat \<Rightarrow> nat \<Rightarrow> bytes" where
  "le_enc 0 v = []"
| "le_enc (Suc n) v = of_nat (v mod 256) # le_enc n (v div 256)"

fun le_dec :: "bytes \<Rightarrow> nat" where
  "le_dec [] = 0"
| "le_dec (b # bs) = unat b + 256 * le_dec bs"

definition bytes_of_u16 :: "u16 \<Rightarrow> bytes" where
  "bytes_of_u16 w = le_enc 2 (unat w)"

definition bytes_of_u32 :: "u32 \<Rightarrow> bytes" where
  "bytes_of_u32 w = le_enc 4 (unat w)"

definition bytes_of_u64 :: "u64 \<Rightarrow> bytes" where
  "bytes_of_u64 w = le_enc 8 (unat w)"

definition u16_of_bytes :: "bytes \<Rightarrow> u16" where
  "u16_of_bytes bs = of_nat (le_dec bs)"

definition u32_of_bytes :: "bytes \<Rightarrow> u32" where
  "u32_of_bytes bs = of_nat (le_dec bs)"

definition u64_of_bytes :: "bytes \<Rightarrow> u64" where
  "u64_of_bytes bs = of_nat (le_dec bs)"

text \<open>
  \<open>get_bytes off n m\<close> reads \<open>n\<close> bytes at offset \<open>off\<close>; \<open>put_bytes off bs m\<close> is the
  \<^verbatim>\<open>memcpy\<close> of \<open>bs\<close> to offset \<open>off\<close>, for a copy that stays inside the buffer.
\<close>

definition get_bytes :: "nat \<Rightarrow> nat \<Rightarrow> bytes \<Rightarrow> bytes" where
  "get_bytes off n m = take n (drop off m)"

definition put_bytes :: "nat \<Rightarrow> bytes \<Rightarrow> bytes \<Rightarrow> bytes" where
  "put_bytes off bs m = take off m @ bs @ drop (off + length bs) m"

text \<open>A buffer of \<open>n\<close> zero bytes (\<^verbatim>\<open>bzero\<close>, \<^verbatim>\<open>memset 0\<close>), and a C string in one.\<close>

definition zeros :: "nat \<Rightarrow> bytes" where
  "zeros n = replicate n 0"

definition bytes_of_string :: "string \<Rightarrow> bytes" where
  "bytes_of_string s = map (\<lambda>c. of_nat (of_char c)) s"

definition string_of_bytes :: "bytes \<Rightarrow> string" where
  "string_of_bytes bs = map (\<lambda>b. char_of (unat b)) bs"

text \<open>The C string at the start of a buffer: the bytes before the first NUL.\<close>

definition c_string :: "bytes \<Rightarrow> string" where
  "c_string bs = string_of_bytes (takeWhile (\<lambda>b. b \<noteq> 0) bs)"

text \<open>\<^verbatim>\<open>htons\<close> on a little-endian host.\<close>

definition htons :: "u16 \<Rightarrow> u16" where
  "htons w = u16_of_bytes (rev (bytes_of_u16 w))"

section \<open>Lemmas on loops\<close>

lemma iterate_append:
  "iterate body (is @ js) s =
     (case iterate body is s of
        Running s' \<Rightarrow> iterate body js s'
      | Done s' \<Rightarrow> Done s'
      | Exited x s' \<Rightarrow> Exited x s')"
  by (induction "is" arbitrary: s) (auto split: run.splits)

lemma iterate_cong:
  assumes "\<And>i s. i \<in> set is \<Longrightarrow> f i s = g i s"
  shows "iterate f is s = iterate g is s"
  using assms by (induction "is" arbitrary: s) (auto split: run.splits)

text \<open>The invariant contract of a loop body.\<close>

locale inv_loop =
  fixes body :: "'i \<Rightarrow> 's \<Rightarrow> ('x, 's) run"
    and inv :: "'s \<Rightarrow> bool"
  assumes inv_body: "inv s \<Longrightarrow> inv (run_state (body i s))"
begin

lemma inv_iterate: "inv s \<Longrightarrow> inv (run_state (iterate body is s))"
proof (induction "is" arbitrary: s)
  case Nil
  then show ?case by simp
next
  case (Cons i "is")
  from inv_body [OF Cons.prems, of i] Cons.IH show ?case
    by (auto split: run.splits)
qed

lemma inv_running: "inv s \<Longrightarrow> iterate body is s = Running s' \<Longrightarrow> inv s'"
  using inv_iterate [of s "is"] by simp

lemma inv_done: "inv s \<Longrightarrow> iterate body is s = Done s' \<Longrightarrow> inv s'"
  using inv_iterate [of s "is"] by simp

end

text \<open>
  The contract of a cyclic loop: from a state that satisfies the invariant, an iteration that
  completes advances \<open>val\<close> by \<open>step\<close>. The loop then has no accumulated error: after any number of
  iterations \<open>val\<close> is the start value plus that multiple of the step.
\<close>

locale counting_loop = inv_loop body inv
  for body :: "'i \<Rightarrow> 's \<Rightarrow> ('x, 's) run"
    and inv :: "'s \<Rightarrow> bool" +
  fixes val :: "'s \<Rightarrow> 'n :: comm_ring_1"
    and step :: 'n
  assumes advance: "inv s \<Longrightarrow> body i s = Running s' \<Longrightarrow> val s' = val s + step"
begin

lemma inv_step: "inv s \<Longrightarrow> body i s = Running s' \<Longrightarrow> inv s'"
  using inv_body [of s i] by simp

lemma drift_free:
  "inv s \<Longrightarrow> iterate body is s = Running s' \<Longrightarrow> val s' = val s + of_nat (length is) * step"
proof (induction "is" arbitrary: s)
  case Nil
  then show ?case by simp
next
  case (Cons i "is")
  then obtain t where t: "body i s = Running t" and it: "iterate body is t = Running s'"
    by (auto split: run.splits)
  have "val s' = val t + of_nat (length is) * step"
    using inv_step [OF Cons.prems(1) t] it by (rule Cons.IH)
  with advance [OF Cons.prems(1) t] show ?case
    by (simp add: algebra_simps)
qed

end

text \<open>
  The contract of a cyclic loop that leaves a trace: a completed iteration also appends one
  entry, a function of \<open>val\<close> as it was before. The trace is then determined by the number of
  iterations.
\<close>

locale cyclic_loop = counting_loop body inv val step
  for body :: "'i \<Rightarrow> 's \<Rightarrow> ('x, 's) run"
    and inv :: "'s \<Rightarrow> bool"
    and val :: "'s \<Rightarrow> 'n :: comm_ring_1"
    and step :: 'n +
  fixes trace :: "'s \<Rightarrow> 'e list"
    and entry :: "'n \<Rightarrow> 'e"
  assumes appends: "inv s \<Longrightarrow> body i s = Running s' \<Longrightarrow> trace s' = trace s @ [entry (val s)]"
begin

lemma trace_all:
  "inv s \<Longrightarrow> iterate body is s = Running s' \<Longrightarrow>
     trace s' = trace s @ map (\<lambda>k. entry (val s + of_nat k * step)) [0..<length is]"
proof (induction "is" arbitrary: s)
  case Nil
  then show ?case by simp
next
  case (Cons i "is")
  then obtain t where t: "body i s = Running t" and it: "iterate body is t = Running s'"
    by (auto split: run.splits)
  note inv = Cons.prems(1)
  have "map (\<lambda>k. entry (val t + of_nat k * step)) [0..<length is]
      = map (\<lambda>k. entry (val s + of_nat k * step)) [1..<Suc (length is)]"
    by (rule nth_equalityI) (simp_all add: advance [OF inv t] algebra_simps del: upt_Suc)
  then show ?case
    using Cons.IH [OF inv_step [OF inv t] it] appends [OF inv t] by (simp add: upt_conv_Cons del: upt_Suc)
qed

end

text \<open>The contract of a step relation: a predicate that every step keeps holds in every state reached.\<close>

locale step_invariant =
  fixes step :: "'s \<Rightarrow> 's \<Rightarrow> bool"
    and inv :: "'s \<Rightarrow> bool"
  assumes keeps: "step s s' \<Longrightarrow> inv s \<Longrightarrow> inv s'"
begin

lemma inv_reach: "step\<^sup>*\<^sup>* s s' \<Longrightarrow> inv s \<Longrightarrow> inv s'"
  by (induction rule: rtranclp_induct) (auto intro: keeps)

end

section \<open>Lemmas on widths, lists and byte buffers\<close>

lemma ucast_u32_u64_eq_0: "(ucast (x :: u32) :: u64) = 0 \<longleftrightarrow> x = 0"
  by transfer simp

lemma unat_ucast_u32_u64: "unat (ucast (x :: u32) :: u64) = unat x"
  by transfer simp

lemma unat_ucast_u8_u32: "unat (ucast (x :: u8) :: u32) = unat x"
  by transfer simp

lemma replicate_2: "replicate 2 x = [x, x]"
  by (simp add: numeral_2_eq_2)

lemma unat_bounds:
  "unat (a :: u8) < 256"
  "unat (b :: u16) < 65536"
  "unat (c :: u32) < 4294967296"
  "unat (d :: u64) < 18446744073709551616"
  using unsigned_less [of a, where ?'a = nat] unsigned_less [of b, where ?'a = nat]
    unsigned_less [of c, where ?'a = nat] unsigned_less [of d, where ?'a = nat]
  by simp_all

lemma length_le_enc [simp]: "length (le_enc n v) = n"
  by (induction n arbitrary: v) auto

lemma le_dec_enc: "le_dec (le_enc n v) = v mod 256 ^ n"
proof (induction n arbitrary: v)
  case 0
  then show ?case by simp
next
  case (Suc n)
  have "unat (of_nat (v mod 256) :: u8) = v mod 256"
    by (simp add: unat_of_nat)
  then show ?case
    by (simp add: Suc.IH mod_mult2_eq)
qed

lemma take_le_enc: "take k (le_enc n v) = le_enc (min k n) v"
  by (induction n arbitrary: k v) (auto simp: take_Cons min_def split: nat.splits)

lemma le_enc_dec: "length bs = n \<Longrightarrow> le_enc n (le_dec bs) = bs"
proof (induction bs arbitrary: n)
  case Nil
  then show ?case by simp
next
  case (Cons b bs)
  have "unat b < 256"
    by (rule unat_bounds)
  then have "(unat b + 256 * le_dec bs) mod 256 = unat b"
    and "(unat b + 256 * le_dec bs) div 256 = le_dec bs"
    by auto
  with Cons show ?case by auto
qed

lemma length_bytes_of [simp]:
  "length (bytes_of_u16 x) = 2" "length (bytes_of_u32 y) = 4" "length (bytes_of_u64 z) = 8"
  by (simp_all add: bytes_of_u16_def bytes_of_u32_def bytes_of_u64_def)

lemma u16_of_bytes_of [simp]: "u16_of_bytes (bytes_of_u16 w) = w"
  using unat_bounds(2) [of w] by (simp add: u16_of_bytes_def bytes_of_u16_def le_dec_enc)

lemma u32_of_bytes_of [simp]: "u32_of_bytes (bytes_of_u32 w) = w"
  using unat_bounds(3) [of w] by (simp add: u32_of_bytes_def bytes_of_u32_def le_dec_enc)

lemma u64_of_bytes_of [simp]: "u64_of_bytes (bytes_of_u64 w) = w"
  using unat_bounds(4) [of w] by (simp add: u64_of_bytes_def bytes_of_u64_def le_dec_enc)

lemma le_dec_zeros [simp]: "le_dec (replicate n 0) = 0"
  by (induction n) auto

lemma length_put_bytes [simp, bytes_simps]:
  "off + length bs \<le> length m \<Longrightarrow> length (put_bytes off bs m) = length m"
  by (simp add: put_bytes_def)

lemma length_get_bytes [simp, bytes_simps]:
  "off + n \<le> length m \<Longrightarrow> length (get_bytes off n m) = n"
  by (simp add: get_bytes_def)

lemma get_put_same [bytes_simps]:
  "off + length bs \<le> length m \<Longrightarrow> n = length bs \<Longrightarrow> get_bytes off n (put_bytes off bs m) = bs"
  by (simp add: get_bytes_def put_bytes_def)

lemma get_put_below [bytes_simps]:
  "off' + n \<le> off \<Longrightarrow> off + length bs \<le> length m \<Longrightarrow>
     get_bytes off' n (put_bytes off bs m) = get_bytes off' n m"
  by (simp add: get_bytes_def put_bytes_def take_drop min_def)

lemma get_put_above [bytes_simps]:
  assumes "off + length bs \<le> off'" and "off + length bs \<le> length m"
  shows "get_bytes off' n (put_bytes off bs m) = get_bytes off' n m"
proof -
  have "off' - (off + length bs) + (off + length bs) = off'"
    using assms by simp
  with assms show ?thesis
    by (simp add: get_bytes_def put_bytes_def drop_append)
qed

lemma put_bytes_at:
  "length xs = off \<Longrightarrow> length ys = length bs \<Longrightarrow> put_bytes off bs (xs @ ys @ zs) = xs @ bs @ zs"
  by (simp add: put_bytes_def)

lemma length_zeros [simp]: "length (zeros n) = n"
  by (simp add: zeros_def)

lemma get_bytes_drop: "get_bytes off n (drop k m) = get_bytes (k + off) n m"
  by (simp add: get_bytes_def add.commute)

lemma get_bytes_take:
  "off + n \<le> k \<Longrightarrow> get_bytes off n (take k m) = get_bytes off n m"
  by (simp add: get_bytes_def drop_take min_def)

lemma get_bytes_append2:
  "length xs \<le> off \<Longrightarrow> get_bytes off n (xs @ ys) = get_bytes (off - length xs) n ys"
  by (simp add: get_bytes_def)

lemma get_bytes_append1:
  "off + n \<le> length xs \<Longrightarrow> get_bytes off n (xs @ ys) = get_bytes off n xs"
  by (simp add: get_bytes_def)

text \<open>A C string written into a zeroed buffer is read back.\<close>

lemma unat_of_char: "unat (of_nat (of_char c) :: u8) = of_char c"
proof -
  have "(of_char c :: nat) < 256"
    by simp
  then show ?thesis
    by (simp add: unat_of_nat)
qed

lemma string_of_bytes_of [simp]: "string_of_bytes (bytes_of_string s) = s"
  by (simp add: string_of_bytes_def bytes_of_string_def unat_of_char comp_def)

lemma bytes_of_string_nz:
  assumes "CHR 0x00 \<notin> set s"
  shows "0 \<notin> set (bytes_of_string s)"
proof
  have nul: "(of_char (CHR 0x00) :: nat) = 0" by simp
  assume "0 \<in> set (bytes_of_string s)"
  then obtain c where c: "c \<in> set s" "(0 :: u8) = of_nat (of_char c)"
    by (auto simp: bytes_of_string_def)
  then have "(of_char c :: nat) = of_char (CHR 0x00)"
    using unat_of_char [of c] c(2) by (metis unat_0 nul)
  then have "c = CHR 0x00"
    by (simp only: of_char_eq_iff)
  with c assms show False by simp
qed

lemma length_bytes_of_string [simp]: "length (bytes_of_string s) = length s"
  by (simp add: bytes_of_string_def)

lemma c_string_put:
  assumes "CHR 0x00 \<notin> set s" and "length s < n"
  shows "c_string (put_bytes 0 (bytes_of_string s) (zeros n)) = s"
proof -
  obtain k where k: "n - length s = Suc k"
    using assms(2) by (cases "n - length s") auto
  have "takeWhile (\<lambda>b. b \<noteq> 0) (bytes_of_string s @ replicate (Suc k) 0) = bytes_of_string s"
    using bytes_of_string_nz [OF assms(1)] by (subst takeWhile_append2) auto
  with k show ?thesis
    by (simp add: c_string_def put_bytes_def zeros_def)
qed

section \<open>Structures copied to and from buffers\<close>

text \<open>
  The contract of a C structure that the programs move with \<^verbatim>\<open>memcpy\<close>: an image of fixed size,
  read back from the front of any buffer that starts with it.
\<close>

locale struct_codec =
  fixes enc :: "'a \<Rightarrow> bytes"
    and dec :: "bytes \<Rightarrow> 'a"
    and sz :: nat
  assumes enc_length: "length (enc x) = sz"
    and dec_enc: "dec (enc x @ rest) = x"
begin

lemma enc_inj: "enc x = enc y \<Longrightarrow> x = y"
  using dec_enc [of x "[]"] dec_enc [of y "[]"] by simp

lemma dec_put: "off + sz \<le> length m \<Longrightarrow> dec (drop off (put_bytes off (enc x) m)) = x"
  by (simp add: put_bytes_def dec_enc)

lemma dec_trunc: "sz \<le> k \<Longrightarrow> dec (take k (enc x @ rest)) = x"
  by (simp add: take_append enc_length dec_enc)

end

end
