(* ===== verification/CLib.thy ===== *)
theory CLib
  imports Prelude
begin

text \<open>
  What the programs use of the C library, on the x86-64 targets (64-bit \<^verbatim>\<open>long\<close>): decimal
  output (\<^verbatim>\<open>%d\<close>, \<^verbatim>\<open>%ld\<close>), \<^verbatim>\<open>strtol\<close> with base 10 and its end pointer, \<^verbatim>\<open>atoi\<close>, the
  \<^verbatim>\<open>%hhx\<close> conversion of \<^verbatim>\<open>sscanf\<close>, and \<^verbatim>\<open>struct timespec\<close>. A \<^verbatim>\<open>char *\<close> end pointer is the
  remaining suffix of the string, so that \<^verbatim>\<open>str_end == &arg[len]\<close> is the empty suffix.

  The lemmas give the grammar of the numbers \<open>parse_bounded\<close> accepts, the print/parse round
  trips, and the linear order of \<open>timespec\<close> with its agreement with nanosecond counts.
\<close>

named_theorems ts_simps \<open>conversions between timespec values and nanosecond counts\<close>

section \<open>Decimal output\<close>

definition digit_char :: "nat \<Rightarrow> char" where
  "digit_char d = char_of (48 + d)"

fun show_nat :: "nat \<Rightarrow> string" where
  "show_nat n =
     (if n < 10 then [digit_char n] else show_nat (n div 10) @ [digit_char (n mod 10)])"

declare show_nat.simps [simp del]

definition tab :: string where "tab = [CHR 0x09]"

definition show_int :: "int \<Rightarrow> string" where
  "show_int i = (if i < 0 then CHR ''-'' # show_nat (nat (- i)) else show_nat (nat i))"

section \<open>strtol, atoi\<close>

definition is_space :: "char \<Rightarrow> bool" where
  "is_space c = (let k = of_char c :: nat in k = 32 \<or> (9 \<le> k \<and> k \<le> 13))"

definition is_digit :: "char \<Rightarrow> bool" where
  "is_digit c = (let k = of_char c :: nat in 48 \<le> k \<and> k \<le> 57)"

definition digit_val :: "char \<Rightarrow> nat" where
  "digit_val c = of_char c - 48"

definition digits_val :: "string \<Rightarrow> nat" where
  "digits_val ds = foldl (\<lambda>acc c. 10 * acc + digit_val c) 0 ds"

definition LONG_MAX :: int where "LONG_MAX = 9223372036854775807"
definition LONG_MIN :: int where "LONG_MIN = - 9223372036854775808"

text \<open>The sign of a number: whether it is negative, and the rest of the string.\<close>

definition take_sign :: "string \<Rightarrow> bool \<times> string" where
  "take_sign s =
     (case s of
        c # cs \<Rightarrow> if c = CHR ''-'' then (True, cs) else if c = CHR ''+'' then (False, cs) else (False, s)
      | [] \<Rightarrow> (False, s))"

text \<open>
  \<^verbatim>\<open>strtol(s, &str_end, 10)\<close>: the value, the rest at \<^verbatim>\<open>str_end\<close>, and whether \<^verbatim>\<open>errno\<close> was set
  (to \<^verbatim>\<open>ERANGE\<close>). Without a digit there is no conversion: the value is 0, \<^verbatim>\<open>str_end\<close> is the
  start of the string and \<^verbatim>\<open>errno\<close> is left alone.
\<close>

definition strtol10 :: "string \<Rightarrow> int \<times> string \<times> bool" where
  "strtol10 s =
     (let (neg, s2) = take_sign (dropWhile is_space s);
          ds = takeWhile is_digit s2;
          rest = dropWhile is_digit s2;
          v = (if neg then - int (digits_val ds) else int (digits_val ds))
      in if ds = [] then (0, s, False)
         else if v > LONG_MAX then (LONG_MAX, rest, True)
         else if v < LONG_MIN then (LONG_MIN, rest, True)
         else (v, rest, False))"

definition atoi :: "string \<Rightarrow> i32" where
  "atoi s = word_of_int (fst (strtol10 s))"

text \<open>
  The check both command-line parsers repeat for every numeric option: convert, then refuse on
  \<^verbatim>\<open>errno\<close>, on a value outside \<open>lo\<close> \<dots> \<open>hi\<close>, or when the conversion did not reach the end.
\<close>

definition parse_bounded :: "int \<Rightarrow> int \<Rightarrow> string \<Rightarrow> int option" where
  "parse_bounded lo hi arg =
     (let (res, str_end, errno) = strtol10 arg
      in if errno \<or> res < lo \<or> res > hi \<or> str_end \<noteq> [] then None else Some res)"

section \<open>The %hhx conversion\<close>

definition hex_val :: "char \<Rightarrow> nat option" where
  "hex_val c =
     (let k = of_char c :: nat
      in if 48 \<le> k \<and> k \<le> 57 then Some (k - 48)
         else if 97 \<le> k \<and> k \<le> 102 then Some (k - 87)
         else if 65 \<le> k \<and> k \<le> 70 then Some (k - 55)
         else None)"

definition is_hex :: "char \<Rightarrow> bool" where
  "is_hex c = (hex_val c \<noteq> None)"

definition hexs_val :: "string \<Rightarrow> nat" where
  "hexs_val ds = foldl (\<lambda>acc c. 16 * acc + the (hex_val c)) 0 ds"

definition drop_0x :: "string \<Rightarrow> string" where
  "drop_0x s =
     (case s of
        a # b # cs \<Rightarrow> if a = CHR ''0'' \<and> (b = CHR ''x'' \<or> b = CHR ''X'') then cs else s
      | _ \<Rightarrow> s)"

text \<open>One \<^verbatim>\<open>%hhx\<close>: the byte stored (an out-of-range number saturates, then keeps its low byte).\<close>

definition scan_hhx :: "string \<Rightarrow> (u8 \<times> string) option" where
  "scan_hhx s =
     (let (neg, s2) = take_sign (dropWhile is_space s);
          s3 = drop_0x s2;
          ds = takeWhile is_hex s3;
          v = min (int (hexs_val ds)) 18446744073709551615
      in if ds = [] then None
         else Some (word_of_int (if neg then - v else v), dropWhile is_hex s3))"

text \<open>
  \<^verbatim>\<open>sscanf(s, "%hhx:%hhx: ... ", ...)\<close> for \<open>n\<close> conversions: the bytes assigned, in order. Its
  length is the return value; a failed conversion or a missing colon stops the scan.
\<close>

fun scan_hhx_list :: "nat \<Rightarrow> string \<Rightarrow> bytes" where
  "scan_hhx_list 0 s = []"
| "scan_hhx_list (Suc n) s =
     (case scan_hhx s of
        None \<Rightarrow> []
      | Some (b, s') \<Rightarrow>
          b # (case s' of
                 c # cs \<Rightarrow> if c = CHR '':'' then scan_hhx_list n cs else []
               | [] \<Rightarrow> []))"

section \<open>struct timespec\<close>

datatype timespec = Timespec (tv_sec: int) (tv_nsec: int)

instantiation timespec :: linorder
begin

definition less_eq_timespec :: "timespec \<Rightarrow> timespec \<Rightarrow> bool" where
  "less_eq_timespec a b =
     (tv_sec a < tv_sec b \<or> (tv_sec a = tv_sec b \<and> tv_nsec a \<le> tv_nsec b))"

definition less_timespec :: "timespec \<Rightarrow> timespec \<Rightarrow> bool" where
  "less_timespec a b =
     (tv_sec a < tv_sec b \<or> (tv_sec a = tv_sec b \<and> tv_nsec a < tv_nsec b))"

instance
proof
  fix x y z :: timespec
  show "(x < y) = (x \<le> y \<and> \<not> y \<le> x)"
    by (auto simp: less_eq_timespec_def less_timespec_def)
  show "x \<le> x"
    by (simp add: less_eq_timespec_def)
  show "x \<le> y \<Longrightarrow> y \<le> z \<Longrightarrow> x \<le> z"
    by (auto simp: less_eq_timespec_def)
  show "x \<le> y \<Longrightarrow> y \<le> x \<Longrightarrow> x = y"
    by (cases x; cases y) (auto simp: less_eq_timespec_def)
  show "x \<le> y \<or> y \<le> x"
    by (auto simp: less_eq_timespec_def)
qed

end

definition NSEC_PER_SEC :: int where "NSEC_PER_SEC = 1000000000"

definition ts_valid :: "timespec \<Rightarrow> bool" where
  "ts_valid ts \<longleftrightarrow> 0 \<le> tv_nsec ts \<and> tv_nsec ts < NSEC_PER_SEC"

definition ns_of :: "timespec \<Rightarrow> int" where
  "ns_of ts = tv_sec ts * NSEC_PER_SEC + tv_nsec ts"

text \<open>
  The conversion every sending loop performs before \<^verbatim>\<open>clock_nanosleep\<close>:
  \<^verbatim>\<open>ts.tv_sec = t / NSEC_PER_SEC; ts.tv_nsec = t % NSEC_PER_SEC\<close> on an unsigned 64-bit count.
\<close>

definition ts_of_u64 :: "u64 \<Rightarrow> timespec" where
  "ts_of_u64 t = Timespec (uint (t div 1000000000)) (uint (t mod 1000000000))"

text \<open>Flags of \<^verbatim>\<open>linux/if_link.h\<close> and \<^verbatim>\<open>linux/if_xdp.h\<close>.\<close>

definition XDP_FLAGS_UPDATE_IF_NOEXIST :: u32 where "XDP_FLAGS_UPDATE_IF_NOEXIST = 1"
definition XDP_FLAGS_SKB_MODE :: u32 where "XDP_FLAGS_SKB_MODE = 2"
definition XDP_FLAGS_DRV_MODE :: u32 where "XDP_FLAGS_DRV_MODE = 4"
definition XDP_COPY :: u32 where "XDP_COPY = 2"
definition XDP_ZEROCOPY :: u32 where "XDP_ZEROCOPY = 4"

section \<open>Lemmas on decimal numbers\<close>

lemma of_char_digit_char: "d < 10 \<Longrightarrow> of_char (digit_char d) = 48 + d"
  by (simp add: digit_char_def of_char_of)

lemma is_digit_digit_char [simp]: "d < 10 \<Longrightarrow> is_digit (digit_char d)"
  by (simp add: is_digit_def of_char_digit_char)

lemma digit_val_digit_char [simp]: "d < 10 \<Longrightarrow> digit_val (digit_char d) = d"
  by (simp add: digit_val_def of_char_digit_char)

lemma digits_val_snoc: "digits_val (ds @ [c]) = 10 * digits_val ds + digit_val c"
  by (simp add: digits_val_def)

lemma show_nat_digits: "list_all is_digit (show_nat n) \<and> show_nat n \<noteq> [] \<and> digits_val (show_nat n) = n"
proof (induction n rule: show_nat.induct)
  case (1 n)
  show ?case
  proof (cases "n < 10")
    case True
    then show ?thesis
      by (subst (1 2 3) show_nat.simps) (simp add: digits_val_def)
  next
    case False
    with 1 have ih: "list_all is_digit (show_nat (n div 10))" "digits_val (show_nat (n div 10)) = n div 10"
      by auto
    from False have eq: "show_nat n = show_nat (n div 10) @ [digit_char (n mod 10)]"
      by (subst show_nat.simps) simp
    show ?thesis
      by (simp add: eq ih digits_val_snoc)
  qed
qed

lemma digits_split:
  assumes "list_all is_digit ds" and "rest = [] \<or> \<not> is_digit (hd rest)"
  shows "takeWhile is_digit (ds @ rest) = ds" and "dropWhile is_digit (ds @ rest) = rest"
  using assms by (cases rest; auto simp: list_all_iff takeWhile_append2 dropWhile_append2)+

text \<open>The conversion proper, once white space and sign are consumed.\<close>

lemma strtol10_core:
  assumes "take_sign (dropWhile is_space s) = (neg, ds @ rest)"
    and "ds \<noteq> []" and "list_all is_digit ds" and "rest = [] \<or> \<not> is_digit (hd rest)"
    and "v = (if neg then - int (digits_val ds) else int (digits_val ds))"
    and "LONG_MIN \<le> v" and "v \<le> LONG_MAX"
  shows "strtol10 s = (v, rest, False)"
  using assms digits_split [OF assms(3,4)] by (simp add: strtol10_def)

lemma strtol10_range:
  assumes "take_sign (dropWhile is_space s) = (neg, ds @ rest)"
    and "ds \<noteq> []" and "list_all is_digit ds" and "rest = [] \<or> \<not> is_digit (hd rest)"
    and "v = (if neg then - int (digits_val ds) else int (digits_val ds))"
    and "v < LONG_MIN \<or> LONG_MAX < v"
  shows "snd (snd (strtol10 s))"
  unfolding strtol10_def assms(1) split_conv Let_def digits_split [OF assms(3,4)] assms(5) [symmetric]
  using assms(2,6) by auto

lemma digit_not_space: "is_digit c \<Longrightarrow> \<not> is_space c"
  by (auto simp: is_digit_def is_space_def Let_def)

lemma digit_not_sign: "is_digit c \<Longrightarrow> c \<noteq> CHR ''-'' \<and> c \<noteq> CHR ''+''"
  by (auto simp: is_digit_def)

lemma take_sign_signs [simp]:
  "take_sign (CHR ''-'' # s) = (True, s)" "take_sign (CHR ''+'' # s) = (False, s)"
  by (simp_all add: take_sign_def)

lemma digits_no_prefix:
  assumes "list_all is_digit ds" and "ds \<noteq> []"
  shows "dropWhile is_space (ds @ xs) = ds @ xs" and "take_sign (ds @ xs) = (False, ds @ xs)"
  using assms digit_not_space digit_not_sign by (cases ds; auto simp: take_sign_def)+

text \<open>Printing an integer and converting it back gives the integer and stops right after it.\<close>

lemma take_sign_show_int:
  "take_sign (dropWhile is_space (show_int v @ rest)) = (v < 0, show_nat (nat \<bar>v\<bar>) @ rest)"
proof (cases "v < 0")
  case True
  then show ?thesis by (simp add: show_int_def is_space_def take_sign_def)
next
  case False
  then have "show_int v = show_nat (nat \<bar>v\<bar>)" by (simp add: show_int_def)
  with False show ?thesis
    using show_nat_digits [of "nat \<bar>v\<bar>"] by (simp add: digits_no_prefix)
qed

lemma strtol10_show_int:
  assumes "LONG_MIN \<le> v" and "v \<le> LONG_MAX" and "rest = [] \<or> \<not> is_digit (hd rest)"
  shows "strtol10 (show_int v @ rest) = (v, rest, False)"
  by (rule strtol10_core [OF take_sign_show_int _ _ assms(3) _ assms(1,2)])
    (use show_nat_digits [of "nat \<bar>v\<bar>"] in auto)

lemma atoi_show_int:
  assumes "rest = [] \<or> \<not> is_digit (hd rest)"
  shows "atoi (show_int (sint (w :: i32)) @ rest) = w"
proof -
  have "- (2 ^ 31) \<le> sint w" and "sint w < 2 ^ 31"
    using sint_ge [of w] sint_lt [of w] by simp_all
  then have "strtol10 (show_int (sint w) @ rest) = (sint w, rest, False)"
    using assms by (intro strtol10_show_int) (auto simp: LONG_MIN_def LONG_MAX_def)
  then show ?thesis by (simp add: atoi_def)
qed

lemma parse_bounded_show_int:
  assumes "LONG_MIN \<le> lo" and "hi \<le> LONG_MAX"
  shows "parse_bounded lo hi (show_int v) = (if lo \<le> v \<and> v \<le> hi then Some v else None)"
proof (cases "LONG_MIN \<le> v \<and> v \<le> LONG_MAX")
  case True
  then show ?thesis
    using strtol10_show_int [of v "[]"] by (simp add: parse_bounded_def not_less)
next
  case False
  have "snd (snd (strtol10 (show_int v @ [])))"
    by (rule strtol10_range [OF take_sign_show_int]) (use False show_nat_digits [of "nat \<bar>v\<bar>"] in auto)
  with False assms show ?thesis
    by (auto simp: parse_bounded_def split: prod.split)
qed

lemma parse_bounded_range: "parse_bounded lo hi arg = Some v \<Longrightarrow> lo \<le> v \<and> v \<le> hi"
  by (auto simp: parse_bounded_def split: prod.splits if_splits)

text \<open>
  The numbers a bounded option accepts, as a grammar: white space, an optional sign and at
  least one digit; and, because \<^verbatim>\<open>strtol\<close> leaves the end pointer at the start when it converts
  nothing, also the empty argument, as 0.
\<close>

definition signed_digits :: "string \<Rightarrow> int \<Rightarrow> bool" where
  "signed_digits arg v \<longleftrightarrow>
     (\<exists>ws ds. list_all is_space ws \<and> ds \<noteq> [] \<and> list_all is_digit ds \<and>
        ((arg = ws @ ds \<or> arg = ws @ CHR ''+'' # ds) \<and> v = int (digits_val ds)
         \<or> arg = ws @ CHR ''-'' # ds \<and> v = - int (digits_val ds)))"

lemma strtol10_signed_digits:
  assumes "signed_digits arg v" and "LONG_MIN \<le> v" and "v \<le> LONG_MAX"
  shows "strtol10 arg = (v, [], False)"
proof -
  obtain ws ds where ws: "list_all is_space ws" and ne: "ds \<noteq> []" and ds: "list_all is_digit ds"
    and arg: "(arg = ws @ ds \<or> arg = ws @ CHR ''+'' # ds) \<and> v = int (digits_val ds)
         \<or> arg = ws @ CHR ''-'' # ds \<and> v = - int (digits_val ds)"
    using assms(1) by (auto simp: signed_digits_def)
  have skip: "dropWhile is_space (ws @ xs) = dropWhile is_space xs" for xs
    using ws by (auto simp: list_all_iff dropWhile_append2)
  have "take_sign (dropWhile is_space arg) = (v < 0 \<or> arg = ws @ CHR ''-'' # ds, ds @ [])"
    using arg digits_no_prefix [OF ds ne, of "[]"]
    by (auto simp: skip is_space_def)
  then show ?thesis
    by (rule strtol10_core) (use arg ne ds assms in auto)
qed

lemma take_sign_cases:
  "take_sign s = (neg, s2) \<Longrightarrow>
     (neg \<and> s = CHR ''-'' # s2) \<or> (\<not> neg \<and> (s = s2 \<or> s = CHR ''+'' # s2))"
  by (cases s) (auto simp: take_sign_def split: if_splits)

lemma strtol10_consumes_all:
  assumes "strtol10 arg = (v, [], False)" and "arg \<noteq> []"
  shows "signed_digits arg v"
proof -
  obtain neg s2 where sg: "take_sign (dropWhile is_space arg) = (neg, s2)"
    by fastforce
  define ds where "ds = takeWhile is_digit s2"
  have ne: "ds \<noteq> []"
    using assms sg by (auto simp: strtol10_def ds_def Let_def split: if_splits)
  have rest: "dropWhile is_digit s2 = []"
    and v: "v = (if neg then - int (digits_val ds) else int (digits_val ds))"
    using assms sg ne by (auto simp: strtol10_def ds_def [symmetric] Let_def split: if_splits)
  have all: "\<forall>c \<in> set s2. is_digit c"
    using rest by simp
  have s2: "s2 = ds"
    unfolding ds_def using all by (rule takeWhile_eq_all_conv [THEN iffD2, symmetric])
  with all have dig: "list_all is_digit ds"
    by (simp add: list_all_iff)
  define ws where "ws = takeWhile is_space arg"
  have ws: "list_all is_space ws" "arg = ws @ dropWhile is_space arg"
    by (auto simp: ws_def list_all_iff dest: set_takeWhileD)
  have split: "(neg \<and> dropWhile is_space arg = CHR ''-'' # ds) \<or>
      (\<not> neg \<and> (dropWhile is_space arg = ds \<or> dropWhile is_space arg = CHR ''+'' # ds))"
    using take_sign_cases [OF sg] s2 by simp
  show ?thesis
    unfolding signed_digits_def
    using ws ne dig split v by (intro exI [of _ ws] exI [of _ ds]) auto
qed

lemma parse_bounded_iff:
  assumes "LONG_MIN \<le> lo" and "hi \<le> LONG_MAX"
  shows "parse_bounded lo hi arg = Some v \<longleftrightarrow>
           lo \<le> v \<and> v \<le> hi \<and> (signed_digits arg v \<or> arg = [] \<and> v = 0)"
    (is "?l = ?r")
proof
  assume ?l
  then have st: "strtol10 arg = (v, [], False)" and "lo \<le> v" "v \<le> hi"
    by (auto simp: parse_bounded_def split: prod.splits if_splits)
  moreover have "arg = [] \<Longrightarrow> v = 0"
    using st by (simp add: strtol10_def take_sign_def)
  ultimately show ?r
    using strtol10_consumes_all [OF st] by auto
next
  assume r: ?r
  show ?l
  proof (cases "signed_digits arg v")
    case True
    with r assms have "strtol10 arg = (v, [], False)"
      by (intro strtol10_signed_digits) auto
    with r show ?thesis by (simp add: parse_bounded_def)
  next
    case False
    with r have "arg = []" "v = 0" by auto
    with r show ?thesis by (simp add: parse_bounded_def strtol10_def take_sign_def)
  qed
qed

section \<open>Lemmas on timespec\<close>

lemma ns_of_less_iff [ts_simps]:
  assumes "ts_valid a" and "ts_valid b"
  shows "ns_of a < ns_of b \<longleftrightarrow> a < b"
  using assms by (auto simp: ts_valid_def ns_of_def less_timespec_def NSEC_PER_SEC_def)

lemma ts_of_u64_valid [ts_simps]: "ts_valid (ts_of_u64 t)"
  by (simp add: ts_valid_def ts_of_u64_def NSEC_PER_SEC_def uint_mod)

lemma ns_of_ts_of_u64 [ts_simps]: "ns_of (ts_of_u64 t) = uint t"
  by (simp add: ns_of_def ts_of_u64_def NSEC_PER_SEC_def uint_div uint_mod)

lemma ts_of_u64_mono: "t < t' \<Longrightarrow> ts_of_u64 t < ts_of_u64 t'"
  using ns_of_less_iff [OF ts_of_u64_valid ts_of_u64_valid, of t t']
  by (simp add: ts_simps word_less_def)

end
