(* ===== verification/Argp.thy ===== *)
theory Argp
  imports CLib "HOL-Library.Sublist"
begin

text \<open>
  The part of glibc's \<^verbatim>\<open>argp\<close> that \<^verbatim>\<open>tsq\<close> and \<^verbatim>\<open>txrx-tsn\<close> use to read their command lines: a
  table of options and a parser function that is called with the key and the argument of each
  option found. The words of the command line are scanned the way \<^verbatim>\<open>getopt_long\<close> does: clusters of
  short options, arguments joined to the option or in the next word, long options with or without
  an equals sign and abbreviated to any unique prefix, a double dash as the end of the options.
  Words that are not options are set aside, and are an error at the end, since neither program
  takes any. The options \<^verbatim>\<open>argp\<close> adds itself are part of the tables.

  Not covered: the environment variable \<^verbatim>\<open>POSIXLY_CORRECT\<close>, which stops the scan at the first
  word that is not an option.
\<close>

section \<open>Tables\<close>

text \<open>
  An entry of \<^verbatim>\<open>struct argp_option\<close>: name, key and argument may be 0, as in the entries that are
  headings of the help text.
\<close>

record argp_option =
  ao_name :: "string option"
  ao_key :: "char option"
  ao_arg :: "string option"
  ao_doc :: string

definition Opt :: "string \<Rightarrow> char \<Rightarrow> string option \<Rightarrow> string \<Rightarrow> argp_option" where
  "Opt n k a d = \<lparr>ao_name = Some n, ao_key = Some k, ao_arg = a, ao_doc = d\<rparr>"

definition Heading :: "string \<Rightarrow> argp_option" where
  "Heading d = \<lparr>ao_name = None, ao_key = None, ao_arg = None, ao_doc = d\<rparr>"

datatype argp_key = Key char | Key_help | Key_usage | Key_progname | Key_hang

datatype argp_has = No_arg | Required_arg | Optional_arg

type_synonym long_opt = "string \<times> argp_key \<times> argp_has"

definition ao_has :: "argp_option \<Rightarrow> argp_has" where
  "ao_has e = (if ao_arg e = None then No_arg else Required_arg)"

fun long_of :: "argp_option list \<Rightarrow> long_opt list" where
  "long_of [] = []"
| "long_of (e # es) =
     (case (ao_name e, ao_key e) of
        (Some n, Some k) \<Rightarrow> (n, Key k, ao_has e) # long_of es
      | _ \<Rightarrow> long_of es)"

text \<open>The default options: \<^verbatim>\<open>--help\<close>, \<^verbatim>\<open>--usage\<close> and two that the help text does not show.\<close>

definition argp_builtin :: "long_opt list" where
  "argp_builtin =
     [(''help'', Key_help, No_arg), (''usage'', Key_usage, No_arg), (''program-name'', Key_progname, Required_arg),
      (''HANG'', Key_hang, Optional_arg)]"

definition long_opts :: "argp_option list \<Rightarrow> long_opt list" where
  "long_opts tbl = long_of tbl @ argp_builtin"

text \<open>An exact name wins; otherwise all options with the prefix must agree in key and kind of argument.\<close>

definition find_long :: "argp_option list \<Rightarrow> string \<Rightarrow> (argp_key \<times> argp_has) option" where
  "find_long tbl n =
     (case find (\<lambda>e. fst e = n) (long_opts tbl) of
        Some e \<Rightarrow> Some (snd e)
      | None \<Rightarrow>
          (case filter (\<lambda>e. prefix n (fst e)) (long_opts tbl) of
             [] \<Rightarrow> None
           | e # es \<Rightarrow> if list_all (\<lambda>e'. snd e' = snd e) es then Some (snd e) else None))"

definition find_short :: "argp_option list \<Rightarrow> char \<Rightarrow> (argp_key \<times> argp_has) option" where
  "find_short tbl c =
     (case find (\<lambda>e. ao_key e = Some c) tbl of
        Some e \<Rightarrow> Some (Key c, ao_has e)
      | None \<Rightarrow> if c = CHR ''?'' then Some (Key_help, No_arg) else None)"

section \<open>Scanning the words\<close>

datatype argp_event = Event argp_key "string option" | Bad_usage

text \<open>
  A word of short options: the events, and the words that are left unless there was an error. The
  last letter may take its argument from the next word.
\<close>

fun scan_short :: "argp_option list \<Rightarrow> string \<Rightarrow> string list \<Rightarrow> argp_event list \<times> string list option" where
  "scan_short tbl [] ws = ([], Some ws)"
| "scan_short tbl (c # cs) ws =
     (case find_short tbl c of
        None \<Rightarrow> ([Bad_usage], None)
      | Some (k, No_arg) \<Rightarrow> (case scan_short tbl cs ws of (es, r) \<Rightarrow> (Event k None # es, r))
      | Some (k, Optional_arg) \<Rightarrow> ([Event k (if cs = [] then None else Some cs)], Some ws)
      | Some (k, Required_arg) \<Rightarrow>
          if cs \<noteq> [] then ([Event k (Some cs)], Some ws)
          else (case ws of [] \<Rightarrow> ([Bad_usage], None) | w # ws' \<Rightarrow> ([Event k (Some w)], Some ws')))"

text \<open>A long option, without its two dashes.\<close>

definition scan_long :: "argp_option list \<Rightarrow> string \<Rightarrow> string list \<Rightarrow> argp_event list \<times> string list option" where
  "scan_long tbl w ws =
     (let n = takeWhile (\<lambda>c. c \<noteq> CHR ''='') w;
          v = (case dropWhile (\<lambda>c. c \<noteq> CHR ''='') w of [] \<Rightarrow> None | _ # cs \<Rightarrow> Some cs)
      in case find_long tbl n of
           None \<Rightarrow> ([Bad_usage], None)
         | Some (k, No_arg) \<Rightarrow> (case v of None \<Rightarrow> ([Event k None], Some ws) | Some _ \<Rightarrow> ([Bad_usage], None))
         | Some (k, Optional_arg) \<Rightarrow> ([Event k v], Some ws)
         | Some (k, Required_arg) \<Rightarrow>
             (case v of
                Some cs \<Rightarrow> ([Event k (Some cs)], Some ws)
              | None \<Rightarrow> (case ws of [] \<Rightarrow> ([Bad_usage], None) | w' # ws' \<Rightarrow> ([Event k (Some w')], Some ws'))))"

definition scan_word :: "argp_option list \<Rightarrow> string \<Rightarrow> string list \<Rightarrow> argp_event list \<times> string list option" where
  "scan_word tbl w ws = (if take 2 w = ''--'' then scan_long tbl (drop 2 w) ws else scan_short tbl (drop 1 w) ws)"

definition is_option :: "string \<Rightarrow> bool" where
  "is_option w \<longleftrightarrow> 2 \<le> length w \<and> hd w = CHR ''-''"

lemma scan_short_left: "scan_short tbl cs ws = (es, Some ws') \<Longrightarrow> length ws' \<le> length ws"
  by (induction tbl cs ws arbitrary: es rule: scan_short.induct)
    (auto split: option.splits prod.splits argp_has.splits if_splits list.splits)

lemma scan_word_left: "scan_word tbl w ws = (es, Some ws') \<Longrightarrow> length ws' \<le> length ws"
  by (auto simp: scan_word_def scan_long_def Let_def dest: scan_short_left
      split: if_splits option.splits prod.splits argp_has.splits list.splits)

text \<open>The whole command line; \<open>left\<close> says whether a word that is not an option was set aside.\<close>

function argp_scan :: "argp_option list \<Rightarrow> bool \<Rightarrow> string list \<Rightarrow> argp_event list" where
  "argp_scan tbl left [] = (if left then [Bad_usage] else [])"
| "argp_scan tbl left (w # ws) =
     (if w = ''--'' then (if left \<or> ws \<noteq> [] then [Bad_usage] else [])
      else if \<not> is_option w then argp_scan tbl True ws
      else case scan_word tbl w ws of
             (es, Some ws') \<Rightarrow> es @ argp_scan tbl left ws'
           | (es, None) \<Rightarrow> es)"
  by pat_completeness auto
termination
  by (relation "measure (\<lambda>(tbl, left, ws). length ws)") (auto dest!: sym [of "(_, _)"] scan_word_left)

section \<open>Parsing\<close>

text \<open>
  The result of \<^verbatim>\<open>argp_parse\<close>: the options; a key the parser does not know although the table has
  it; an exit of the parser with its message; a usage error; the help text.
\<close>

datatype 'o argp_res = ArgpOk 'o | ArgpUnknown | ArgpExit string | ArgpUsage | ArgpHelp

text \<open>The calls of the parser for options with their arguments, in order.\<close>

fun argp_run :: "(char \<Rightarrow> string \<Rightarrow> 'o \<Rightarrow> 'o argp_res) \<Rightarrow> (char \<times> string) list \<Rightarrow> 'o \<Rightarrow> 'o argp_res" where
  "argp_run parser [] opt = ArgpOk opt"
| "argp_run parser ((key, arg) # args) opt =
     (case parser key arg opt of
        ArgpOk opt' \<Rightarrow> argp_run parser args opt'
      | r \<Rightarrow> r)"

text \<open>The parser is given NULL for an option without argument; the empty string stands for it.\<close>

fun argp_events :: "(char \<Rightarrow> string \<Rightarrow> 'o \<Rightarrow> 'o argp_res) \<Rightarrow> argp_event list \<Rightarrow> 'o \<Rightarrow> 'o argp_res" where
  "argp_events parser [] opt = ArgpOk opt"
| "argp_events parser (Bad_usage # es) opt = ArgpUsage"
| "argp_events parser (Event (Key k) a # es) opt =
     (case parser k (case a of None \<Rightarrow> [] | Some v \<Rightarrow> v) opt of
        ArgpOk opt' \<Rightarrow> argp_events parser es opt'
      | r \<Rightarrow> r)"
| "argp_events parser (Event Key_help a # es) opt = ArgpHelp"
| "argp_events parser (Event Key_usage a # es) opt = ArgpHelp"
| "argp_events parser (Event Key_progname a # es) opt = argp_events parser es opt"
| "argp_events parser (Event Key_hang a # es) opt = argp_events parser es opt"

definition argp_parse ::
  "argp_option list \<Rightarrow> (char \<Rightarrow> string \<Rightarrow> 'o \<Rightarrow> 'o argp_res) \<Rightarrow> string list \<Rightarrow> 'o \<Rightarrow> 'o argp_res" where
  "argp_parse tbl parser argv opt = argp_events parser (argp_scan tbl False argv) opt"

section \<open>Lemmas\<close>

text \<open>The contract of an option parser: what it accepts keeps the options well-formed.\<close>

locale option_parser =
  fixes parser :: "char \<Rightarrow> string \<Rightarrow> 'o \<Rightarrow> 'o argp_res"
    and wf :: "'o \<Rightarrow> bool"
  assumes keeps_wf: "wf opt \<Longrightarrow> parser key arg opt = ArgpOk opt' \<Longrightarrow> wf opt'"
begin

lemma argp_run_wf: "wf opt \<Longrightarrow> argp_run parser args opt = ArgpOk opt' \<Longrightarrow> wf opt'"
proof (induction args arbitrary: opt)
  case Nil
  then show ?case by simp
next
  case (Cons ka args)
  obtain key arg where ka: "ka = (key, arg)" by fastforce
  with Cons.prems obtain o1 where "parser key arg opt = ArgpOk o1"
    and "argp_run parser args o1 = ArgpOk opt'"
    by (auto split: argp_res.splits)
  with keeps_wf [OF Cons.prems(1)] Cons.IH show ?case by blast
qed

end

text \<open>Elimination rules for the chains of cases of the parsers.\<close>

lemma argp_ifE:
  assumes "(if b then x else y) = ArgpOk opt" and "x = ArgpOk opt \<Longrightarrow> R" and "y = ArgpOk opt \<Longrightarrow> R"
  shows R
  using assms by (auto split: if_splits)

lemma argp_numE:
  assumes "(case parse_bounded lo hi arg of Some v \<Rightarrow> ArgpOk (f v) | None \<Rightarrow> ArgpExit m) = ArgpOk opt"
    and "\<And>v. lo \<le> v \<Longrightarrow> v \<le> hi \<Longrightarrow> opt = f v \<Longrightarrow> R"
  shows R
  using assms(1) assms(2) parse_bounded_range [of lo hi arg] by (cases "parse_bounded lo hi arg") auto

lemma argp_okE:
  assumes "ArgpOk opt' = ArgpOk opt" and "opt = opt' \<Longrightarrow> R"
  shows R
  using assms by simp

lemma argp_stopE:
  "ArgpUnknown = ArgpOk opt \<Longrightarrow> R" "ArgpExit m = ArgpOk opt \<Longrightarrow> R"
  by simp_all

lemmas argp_elims = argp_okE argp_stopE argp_numE argp_ifE

lemma argp_run_append:
  "argp_run parser (xs @ ys) opt =
     (case argp_run parser xs opt of
        ArgpOk opt' \<Rightarrow> argp_run parser ys opt'
      | r \<Rightarrow> r)"
  by (induction parser xs opt rule: argp_run.induct) (auto split: argp_res.splits)

section \<open>Well-formed tables\<close>

text \<open>Distinct keys and names, names without an equals sign, and no clash with the default options.\<close>

definition table_keys :: "argp_option list \<Rightarrow> char list" where
  "table_keys tbl = concat (map (\<lambda>e. case ao_key e of Some k \<Rightarrow> [k] | None \<Rightarrow> []) tbl)"

definition entry_ok :: "argp_option \<Rightarrow> bool" where
  "entry_ok e \<longleftrightarrow>
     (case (ao_name e, ao_key e) of
        (Some n, Some k) \<Rightarrow> n \<noteq> [] \<and> CHR ''='' \<notin> set n \<and> k \<noteq> CHR ''-''
      | (None, None) \<Rightarrow> True
      | _ \<Rightarrow> False)"

definition table_ok :: "argp_option list \<Rightarrow> bool" where
  "table_ok tbl \<longleftrightarrow> list_all entry_ok tbl \<and> distinct (table_keys tbl) \<and> distinct (map fst (long_opts tbl))"

lemma table_keys_mem: "e \<in> set tbl \<Longrightarrow> ao_key e = Some k \<Longrightarrow> k \<in> set (table_keys tbl)"
  by (force simp: table_keys_def)

lemma table_keys_no_arg:
  "e \<in> set tbl \<Longrightarrow> ao_key e = Some k \<Longrightarrow> ao_arg e = None \<Longrightarrow> k \<in> set (table_keys (filter (\<lambda>e. ao_arg e = None) tbl))"
  by (rule table_keys_mem) simp_all

lemma find_distinct:
  "distinct (map f xs) \<Longrightarrow> x \<in> set xs \<Longrightarrow> find (\<lambda>y. f y = f x) xs = Some x"
  by (induction xs) auto

lemma long_of_mem: "e \<in> set tbl \<Longrightarrow> ao_name e = Some n \<Longrightarrow> ao_key e = Some k \<Longrightarrow> (n, Key k, ao_has e) \<in> set (long_of tbl)"
  by (induction tbl) (auto split: option.splits)

lemma long_of_key: "(n, Key k, h) \<in> set (long_of tbl) \<Longrightarrow> \<exists>e \<in> set tbl. ao_key e = Some k \<and> h = ao_has e"
  by (induction tbl) (auto split: option.splits)

lemma long_opts_key: "(n, Key k, h) \<in> set (long_opts tbl) \<Longrightarrow> \<exists>e \<in> set tbl. ao_key e = Some k \<and> h = ao_has e"
  by (auto simp: long_opts_def argp_builtin_def dest: long_of_key)

lemma find_long_key:
  assumes "find_long tbl n = Some (Key k, h)"
  shows "\<exists>e \<in> set tbl. ao_key e = Some k \<and> h = ao_has e"
proof -
  obtain m where "(m, Key k, h) \<in> set (long_opts tbl)"
  proof (cases "find (\<lambda>e. fst e = n) (long_opts tbl)")
    case (Some e)
    then have "e \<in> set (long_opts tbl)" by (auto simp: find_Some_iff)
    with assms Some that show ?thesis by (cases e) (auto simp: find_long_def)
  next
    case None
    then obtain e es where es: "filter (\<lambda>e. prefix n (fst e)) (long_opts tbl) = e # es" and "snd e = (Key k, h)"
      using assms by (auto simp: find_long_def split: list.splits if_splits)
    moreover have "e \<in> set (long_opts tbl)"
      using arg_cong [OF es, of set] by auto
    ultimately show ?thesis using that by (cases e) auto
  qed
  then show ?thesis by (rule long_opts_key)
qed

lemma find_short_key:
  "find_short tbl c = Some (Key k, h) \<Longrightarrow> \<exists>e \<in> set tbl. ao_key e = Some k \<and> h = ao_has e"
  by (fastforce simp: find_short_def find_Some_iff split: option.splits if_splits)

text \<open>An event with a key comes from an entry of the table, and has an argument if the entry says so.\<close>

definition from_table :: "argp_option list \<Rightarrow> argp_event \<Rightarrow> bool" where
  "from_table tbl ev \<longleftrightarrow>
     (\<forall>k a. ev = Event (Key k) a \<longrightarrow> (\<exists>e \<in> set tbl. ao_key e = Some k \<and> (ao_arg e = None \<longleftrightarrow> a = None)))"

lemma from_table_simps [simp]:
  "from_table tbl Bad_usage"
  "from_table tbl (Event (Key k) a) \<longleftrightarrow> (\<exists>e \<in> set tbl. ao_key e = Some k \<and> (ao_arg e = None \<longleftrightarrow> a = None))"
  by (auto simp: from_table_def)

lemma from_table_found:
  assumes "(case k of Key c \<Rightarrow> \<exists>e \<in> set tbl. ao_key e = Some c \<and> h = ao_has e | _ \<Rightarrow> True)"
    and "h = No_arg \<longleftrightarrow> a = None"
  shows "from_table tbl (Event k a)"
  using assms by (cases k) (auto simp: ao_has_def from_table_def split: if_splits)

lemma from_table_optional:
  assumes "(case k of Key c \<Rightarrow> \<exists>e \<in> set tbl. ao_key e = Some c \<and> Optional_arg = ao_has e | _ \<Rightarrow> True)"
  shows "from_table tbl (Event k a)"
  using assms by (cases k) (auto simp: ao_has_def from_table_def split: if_splits)

lemma found_in_table:
  assumes "find_long tbl n = Some (k, h) \<or> find_short tbl c = Some (k, h)"
  shows "(case k of Key c \<Rightarrow> \<exists>e \<in> set tbl. ao_key e = Some c \<and> h = ao_has e | _ \<Rightarrow> True)"
  using assms by (cases k) (auto dest: find_long_key find_short_key)

lemmas from_table_intros =
  from_table_found [OF found_in_table [OF disjI1]] from_table_found [OF found_in_table [OF disjI2]]
  from_table_optional [OF found_in_table [OF disjI1]] from_table_optional [OF found_in_table [OF disjI2]]

lemma scan_short_from_table: "list_all (from_table tbl) (fst (scan_short tbl cs ws))"
proof (induction cs arbitrary: ws)
  case (Cons c cs)
  show ?case
  proof (cases "find_short tbl c")
    case (Some kh)
    obtain k h where kh: "kh = (k, h)" by fastforce
    with Some Cons show ?thesis
      by (cases h) (auto simp: split_beta split: list.split intro: from_table_intros)
  qed simp
qed simp

lemma scan_long_from_table: "list_all (from_table tbl) (fst (scan_long tbl w ws))"
proof (cases "find_long tbl (takeWhile (\<lambda>c. c \<noteq> CHR ''='') w)")
  case (Some kh)
  obtain k h where kh: "kh = (k, h)" by fastforce
  with Some show ?thesis
    by (cases h) (auto simp: scan_long_def Let_def split: list.split option.split intro: from_table_intros)
qed (simp add: scan_long_def)

lemma scan_word_from_table: "scan_word tbl w ws = (es, r) \<Longrightarrow> list_all (from_table tbl) es"
  using scan_short_from_table [of tbl "drop 1 w" ws] scan_long_from_table [of tbl "drop 2 w" ws]
  by (auto simp: scan_word_def split: if_splits)

lemma argp_scan_from_table: "list_all (from_table tbl) (argp_scan tbl left ws)"
proof (induction tbl left ws rule: argp_scan.induct)
  case (2 tbl left w ws)
  obtain es r where "scan_word tbl w ws = (es, r)" by fastforce
  with 2 scan_word_from_table [OF this] show ?case
    by (cases r) auto
qed simp

section \<open>Spellings of an option\<close>

text \<open>
  An option on the command line: its entry, how it is written, and its argument. The key with the
  argument is what the parser is called with.
\<close>

datatype spelling = Short_joined | Short_next | Long_equals | Long_next

type_synonym item = "argp_option \<times> spelling \<times> string"

fun spell :: "item \<Rightarrow> string list" where
  "spell (e, sp, v) =
     (case (ao_name e, ao_key e, ao_arg e) of
        (Some n, Some k, None) \<Rightarrow>
          (if sp = Short_joined \<or> sp = Short_next then [[CHR ''-'', k]] else [''--'' @ n])
      | (Some n, Some k, Some _) \<Rightarrow>
          (case sp of
             Short_joined \<Rightarrow> [CHR ''-'' # k # v]
           | Short_next \<Rightarrow> [[CHR ''-'', k], v]
           | Long_equals \<Rightarrow> [''--'' @ n @ ''='' @ v]
           | Long_next \<Rightarrow> [''--'' @ n, v])
      | _ \<Rightarrow> [])"

fun item_arg :: "item \<Rightarrow> string option" where
  "item_arg (e, sp, v) = (if ao_arg e = None then None else Some v)"

fun item_key :: "item \<Rightarrow> char \<times> string" where
  "item_key (e, sp, v) = (case ao_key e of Some k \<Rightarrow> k | None \<Rightarrow> CHR 0x00, if ao_arg e = None then [] else v)"

text \<open>An empty argument cannot be joined to a short option.\<close>

fun item_ok :: "argp_option list \<Rightarrow> item \<Rightarrow> bool" where
  "item_ok tbl (e, sp, v) \<longleftrightarrow> e \<in> set tbl \<and> ao_key e \<noteq> None \<and> (sp = Short_joined \<and> ao_arg e \<noteq> None \<longrightarrow> v \<noteq> [])"

lemma table_entry:
  assumes "table_ok tbl" and "e \<in> set tbl" and "ao_key e \<noteq> None"
  shows "\<exists>n k. ao_name e = Some n \<and> ao_key e = Some k \<and> n \<noteq> [] \<and> CHR ''='' \<notin> set n \<and> k \<noteq> CHR ''-''"
  using assms by (auto simp: table_ok_def list_all_iff entry_ok_def split: option.splits)

lemma find_long_entry:
  assumes "table_ok tbl" and "e \<in> set tbl" and "ao_name e = Some n" and "ao_key e = Some k"
  shows "find_long tbl n = Some (Key k, ao_has e)"
proof -
  have "(n, Key k, ao_has e) \<in> set (long_opts tbl)"
    using long_of_mem [OF assms(2-4)] by (simp add: long_opts_def)
  then have "find (\<lambda>y. fst y = fst (n, Key k, ao_has e)) (long_opts tbl) = Some (n, Key k, ao_has e)"
    using assms(1) by (intro find_distinct) (simp_all add: table_ok_def)
  then show ?thesis by (simp add: find_long_def)
qed

lemma table_keys_find:
  "distinct (table_keys tbl) \<Longrightarrow> e \<in> set tbl \<Longrightarrow> ao_key e = Some k \<Longrightarrow> find (\<lambda>e. ao_key e = Some k) tbl = Some e"
proof (induction tbl)
  case (Cons x tbl)
  have "k \<in> set (table_keys tbl)" if "e \<in> set tbl"
    using that Cons.prems(3) by (rule table_keys_mem)
  with Cons show ?case by (auto simp: table_keys_def)
qed simp

lemma find_short_entry:
  assumes "table_ok tbl" and "e \<in> set tbl" and "ao_key e = Some k"
  shows "find_short tbl k = Some (Key k, ao_has e)"
  using table_keys_find [of tbl e k] assms by (simp add: find_short_def table_ok_def)

lemma name_split:
  assumes "CHR ''='' \<notin> set n"
  shows "takeWhile (\<lambda>c. c \<noteq> CHR ''='') (n @ CHR ''='' # v) = n" "dropWhile (\<lambda>c. c \<noteq> CHR ''='') (n @ CHR ''='' # v) = CHR ''='' # v"
    "takeWhile (\<lambda>c. c \<noteq> CHR ''='') n = n" "dropWhile (\<lambda>c. c \<noteq> CHR ''='') n = []"
proof -
  have "\<forall>c \<in> set n. c \<noteq> CHR ''=''" using assms by auto
  then show "takeWhile (\<lambda>c. c \<noteq> CHR ''='') (n @ CHR ''='' # v) = n" "dropWhile (\<lambda>c. c \<noteq> CHR ''='') (n @ CHR ''='' # v) = CHR ''='' # v"
    "takeWhile (\<lambda>c. c \<noteq> CHR ''='') n = n" "dropWhile (\<lambda>c. c \<noteq> CHR ''='') n = []"
    by simp_all
qed

lemma argp_scan_option:
  assumes "is_option w" and "w \<noteq> ''--''" and "scan_word tbl w ws = (es, Some ws')"
  shows "argp_scan tbl left (w # ws) = es @ argp_scan tbl left ws'"
  using assms by simp

lemma scan_word_short:
  assumes "find_short tbl k = Some (Key k, h)" and "k \<noteq> CHR ''-''"
  shows "h = No_arg \<Longrightarrow> scan_word tbl [CHR ''-'', k] ws = ([Event (Key k) None], Some ws)"
    and "h = Required_arg \<Longrightarrow> scan_word tbl [CHR ''-'', k] (v # ws) = ([Event (Key k) (Some v)], Some ws)"
    and "h = Required_arg \<Longrightarrow> v \<noteq> [] \<Longrightarrow> scan_word tbl (CHR ''-'' # k # v) ws = ([Event (Key k) (Some v)], Some ws)"
  using assms by (simp_all add: scan_word_def)

lemma scan_word_long:
  assumes "find_long tbl n = Some (Key k, h)" and "CHR ''='' \<notin> set n"
  shows "h = No_arg \<Longrightarrow> scan_word tbl (''--'' @ n) ws = ([Event (Key k) None], Some ws)"
    and "h = Required_arg \<Longrightarrow> scan_word tbl (''--'' @ n) (v # ws) = ([Event (Key k) (Some v)], Some ws)"
    and "h = Required_arg \<Longrightarrow> scan_word tbl (''--'' @ n @ ''='' @ v) ws = ([Event (Key k) (Some v)], Some ws)"
  using assms(1) by (simp_all add: scan_word_def scan_long_def name_split [OF assms(2)])

lemma scan_spelled:
  assumes "table_ok tbl" and "item_ok tbl (e, sp, v)"
  shows "argp_scan tbl left (spell (e, sp, v) @ ws) =
    Event (Key (fst (item_key (e, sp, v)))) (item_arg (e, sp, v)) # argp_scan tbl left ws"
proof -
  obtain n k where e: "ao_name e = Some n" "ao_key e = Some k" "n \<noteq> []" "CHR ''='' \<notin> set n" "k \<noteq> CHR ''-''" "e \<in> set tbl"
    using table_entry [OF assms(1), of e] assms(2) by auto
  note short = scan_word_short [OF find_short_entry [OF assms(1) e(6,2)] e(5)]
    and long = scan_word_long [OF find_long_entry [OF assms(1) e(6,1,2)] e(4)]
  have opt: "is_option [CHR ''-'', k]" "is_option (CHR ''-'' # k # v)" "is_option (''--'' @ n)" "is_option (''--'' @ n @ ''='' @ v)"
    by (simp_all add: is_option_def)
  have ne: "[CHR ''-'', k] \<noteq> ''--''" "CHR ''-'' # k # v \<noteq> ''--''" "''--'' @ n \<noteq> ''--''" "''--'' @ n @ ''='' @ v \<noteq> ''--''"
    using e(3,5) by simp_all
  show ?thesis
  proof (cases "ao_arg e")
    case None
    with e argp_scan_option [OF opt(1) ne(1) short(1)] argp_scan_option [OF opt(3) ne(3) long(1)] show ?thesis
      by (simp add: ao_has_def del: argp_scan.simps)
  next
    case (Some a)
    then have h: "ao_has e = Required_arg" by (simp add: ao_has_def)
    have "v \<noteq> []" if "sp = Short_joined" using that Some assms(2) by simp
    with Some e argp_scan_option [OF opt(1) ne(1) short(2) [OF h]] argp_scan_option [OF opt(2) ne(2) short(3) [OF h]]
      argp_scan_option [OF opt(3) ne(3) long(2) [OF h]] argp_scan_option [OF opt(4) ne(4) long(3) [OF h]] show ?thesis
      by (cases sp) (simp_all del: argp_scan.simps)
  qed
qed

lemma scan_all_spelled:
  assumes "table_ok tbl" and "list_all (item_ok tbl) its"
  shows "argp_scan tbl False (concat (map spell its)) = map (\<lambda>i. Event (Key (fst (item_key i))) (item_arg i)) its"
  using assms(2)
proof (induction its)
  case (Cons i its)
  obtain e sp v where i: "i = (e, sp, v)" by (cases i) auto
  with Cons scan_spelled [OF assms(1), of e sp v False "concat (map spell its)"] show ?case
    by (simp del: spell.simps item_key.simps item_arg.simps)
qed simp

lemma events_of_items:
  "argp_events parser (map (\<lambda>i. Event (Key (fst (item_key i))) (item_arg i)) its) opt = argp_run parser (map item_key its) opt"
proof (induction its arbitrary: opt)
  case (Cons i its)
  obtain e sp v where i: "i = (e, sp, v)" by (cases i) auto
  with Cons show ?case by (auto split: argp_res.split)
qed simp

text \<open>A key the parser understands: its argument is accepted, or the program ends with a message.\<close>

fun argp_known :: "'o argp_res \<Rightarrow> bool" where
  "argp_known (ArgpOk opt) = True"
| "argp_known (ArgpExit msg) = True"
| "argp_known _ = False"

lemma argp_known_case [simp]: "argp_known (case x of None \<Rightarrow> ArgpExit msg | Some v \<Rightarrow> ArgpOk (f v))"
  by (cases x) simp_all

text \<open>
  The contract between a table and a parser: the table is well-formed, the parser understands every
  key of the table and does not read the argument of an option that has none.
\<close>

locale option_table = option_parser parser wf
  for parser :: "char \<Rightarrow> string \<Rightarrow> 'o \<Rightarrow> 'o argp_res" and wf :: "'o \<Rightarrow> bool" +
  fixes tbl :: "argp_option list"
  assumes table: "table_ok tbl"
    and understands: "e \<in> set tbl \<Longrightarrow> ao_key e = Some k \<Longrightarrow> argp_known (parser k a opt)"
    and no_argument: "e \<in> set tbl \<Longrightarrow> ao_key e = Some k \<Longrightarrow> ao_arg e = None \<Longrightarrow> parser k a opt = parser k b opt"
begin

lemma events_wf: "wf opt \<Longrightarrow> argp_events parser es opt = ArgpOk opt' \<Longrightarrow> wf opt'"
proof (induction es arbitrary: opt)
  case (Cons ev es)
  then show ?case
    by (cases "(parser, ev # es, opt)" rule: argp_events.cases) (auto dest: keeps_wf split: argp_res.splits)
qed simp

lemma parse_wf: "wf opt \<Longrightarrow> argp_parse tbl parser argv opt = ArgpOk opt' \<Longrightarrow> wf opt'"
  unfolding argp_parse_def by (rule events_wf)

lemma events_understood: "list_all (from_table tbl) es \<Longrightarrow> argp_events parser es opt \<noteq> ArgpUnknown"
proof (induction es arbitrary: opt)
  case (Cons ev es)
  show ?case
  proof (cases "\<exists>k a. ev = Event (Key k) a")
    case True
    then obtain k a e where ev: "ev = Event (Key k) a" and "e \<in> set tbl" "ao_key e = Some k"
      using Cons.prems by auto
    then show ?thesis
      using Cons understands [of e k "case a of None \<Rightarrow> [] | Some v \<Rightarrow> v" opt] by (auto split: argp_res.splits)
  next
    case False
    have "list_all (from_table tbl) es" using Cons.prems by simp
    with False Cons.IH show ?thesis
      by (cases ev; cases "case ev of Event k a \<Rightarrow> k | _ \<Rightarrow> Key_help") auto
  qed
qed simp

lemma parse_understood: "argp_parse tbl parser argv opt \<noteq> ArgpUnknown"
  unfolding argp_parse_def by (rule events_understood [OF argp_scan_from_table])

text \<open>Every way to write a list of options gives the same result: the parser is called with their keys in order.\<close>

lemma parse_spelled:
  "list_all (item_ok tbl) its \<Longrightarrow> argp_parse tbl parser (concat (map spell its)) opt = argp_run parser (map item_key its) opt"
  by (simp add: argp_parse_def scan_all_spelled [OF table] events_of_items)

end

section \<open>Ranges in the help text\<close>

fun text_after :: "string \<Rightarrow> string \<Rightarrow> string option" where
  "text_after pat [] = (if pat = [] then Some [] else None)"
| "text_after pat (c # cs) = (if prefix pat (c # cs) then Some (drop (length pat) (c # cs)) else text_after pat cs)"

definition number_after :: "string \<Rightarrow> string \<Rightarrow> int option" where
  "number_after pat doc =
     (case text_after pat doc of Some s \<Rightarrow> Some (foldl (\<lambda>n c. 10 * n + (of_char c - 48)) 0 (takeWhile is_digit s)) | None \<Rightarrow> None)"

text \<open>The default and the limits a help text gives as \<^verbatim>\<open>Def: 5678 | Min: 999 | Max: 9999\<close>.\<close>

definition documented :: "string \<Rightarrow> (int \<times> int \<times> int) option" where
  "documented doc =
     (case (number_after ''Def: '' doc, number_after ''Min: '' doc, number_after ''Max: '' doc) of
        (Some d, Some lo, Some hi) \<Rightarrow> Some (d, lo, hi)
      | _ \<Rightarrow> None)"

lemma documented_cases:
  assumes "map (\<lambda>e. (ao_key e, documented (ao_doc e))) (filter (\<lambda>e. documented (ao_doc e) \<noteq> None) tbl) = ds"
    and "e \<in> set tbl" and "ao_key e = Some k" and "documented (ao_doc e) = Some (d, lo, hi)"
  shows "(Some k, Some (d, lo, hi)) \<in> set ds"
  unfolding assms(1) [symmetric] set_map by (rule image_eqI [of _ _ e]) (use assms(2-4) in auto)

end
