(* ===== verification/Tsq_Core.thy ===== *)
theory Tsq_Core
  imports Argp
begin

text \<open>
  The parts of \<^verbatim>\<open>src/tsq.c\<close> that the talker and the listener share: the process globals and
  \<^verbatim>\<open>error()\<close>, the halt flag with its signal handler, \<^verbatim>\<open>struct payload\<close> and its image on the
  wire, the command-line parser, and the three helpers on payloads and ready flags.

  \<^verbatim>\<open>server_ip\<close> has no default in \<^verbatim>\<open>main\<close>; \<open>None\<close> is the indeterminate pointer it then is.
\<close>

section \<open>Globals, error, signals\<close>

record tsq_glob =
  halt_sig :: cint
  glob_fp :: "nat option"
  glob_sockfd :: fd
  glob_ptpfd :: fd

datatype tsq_call = Close fd | Fclose nat | Fprintf_stderr string

record tsq_exit =
  ex_calls :: "tsq_call list"
  ex_code :: cint

definition tsq_error :: "string \<Rightarrow> tsq_glob \<Rightarrow> tsq_exit" where
  "tsq_error msg g =
     \<lparr>ex_calls =
        (if glob_sockfd g \<noteq> 0 then [Close (glob_sockfd g)] else []) @
        (case glob_fp g of Some fp \<Rightarrow> [Fclose fp] | None \<Rightarrow> []) @
        (if glob_ptpfd g \<noteq> 0 then [Close (glob_ptpfd g)] else []) @
        [Fprintf_stderr msg],
      ex_code = 1\<rparr>"

text \<open>The results of the two mutex calls only decide what is reported; the second component is what is
  printed.\<close>

definition get_signal :: "cint \<Rightarrow> cint \<Rightarrow> tsq_glob \<Rightarrow> cint \<times> string list" where
  "get_signal lock_ret unlock_ret g =
     (halt_sig g,
      (if lock_ret \<noteq> 0 then [''[TSQ] Failed to lock halt_sig.\<newline>''] else []) @
      (if unlock_ret \<noteq> 0 then [''[TSQ] Failed to unlock halt_sig.\<newline>''] else []))"

definition sigint_handler :: "cint \<Rightarrow> cint \<Rightarrow> cint \<Rightarrow> tsq_glob \<Rightarrow> tsq_glob \<times> string list" where
  "sigint_handler lock_ret unlock_ret signum g =
     (g\<lparr>halt_sig := signum\<rparr>,
      [''[TSQ] Thread exiting.\<newline>''] @
      (if lock_ret \<noteq> 0 then [''[TSQ] Failed to lock halt_sig.\<newline>''] else []) @
      (if unlock_ret \<noteq> 0 then [''[TSQ] Failed to unlock halt_sig.\<newline>''] else []))"

text \<open>Signals that arrive before the next look at the flag, and that look.\<close>

definition deliver :: "cint list \<Rightarrow> tsq_glob \<Rightarrow> tsq_glob" where
  "deliver signums g = fold (\<lambda>n g. fst (sigint_handler 0 0 n g)) signums g"

definition signalled :: "tsq_glob \<Rightarrow> bool" where
  "signalled g \<longleftrightarrow> fst (get_signal 0 0 g) \<noteq> 0"

section \<open>The payload\<close>

record payload =
  uid :: i32
  seq :: i32
  secs :: i64
  nsecs :: i64

definition BUFFER_SIZE :: nat where "BUFFER_SIZE = 256"
definition CLIENT_COUNT :: nat where "CLIENT_COUNT = 2"

text \<open>\<^verbatim>\<open>memset(&p, 0, sizeof(payload))\<close>.\<close>

definition zero_payload :: payload where
  "zero_payload = \<lparr>uid = 0, seq = 0, secs = 0, nsecs = 0\<rparr>"

text \<open>The 24-byte image of the structure: two \<^verbatim>\<open>int\<close>, a \<^verbatim>\<open>long long\<close> and a \<^verbatim>\<open>long\<close>, no padding.\<close>

definition payload_bytes :: "payload \<Rightarrow> bytes" where
  "payload_bytes p =
     bytes_of_u32 (uid p) @ bytes_of_u32 (seq p) @ bytes_of_u64 (secs p) @ bytes_of_u64 (nsecs p)"

definition payload_of_bytes :: "bytes \<Rightarrow> payload" where
  "payload_of_bytes bs =
     \<lparr>uid = u32_of_bytes (get_bytes 0 4 bs), seq = u32_of_bytes (get_bytes 4 4 bs),
      secs = u64_of_bytes (get_bytes 8 8 bs), nsecs = u64_of_bytes (get_bytes 16 8 bs)\<rparr>"

section \<open>Options\<close>

record tsq_opt =
  verbose :: cint
  mode :: cint
  server_ip :: "string option"
  port :: int
  output_file :: string
  opt_uid :: int
  device :: string
  timeout :: int

definition MODE_LISTENER :: cint where "MODE_LISTENER = 1"
definition MODE_TALKER :: cint where "MODE_TALKER = 2"

text \<open>
  The checks of the numeric options: \<^verbatim>\<open>port\<close> and \<^verbatim>\<open>uid\<close> between 999 and 9999 (the test for a
  value below 1 is implied), the timeout between 1 and 2000.
\<close>

definition tsq_parser :: "char \<Rightarrow> string \<Rightarrow> tsq_opt \<Rightarrow> tsq_opt argp_res" where
  "tsq_parser key arg opt =
     (if key = CHR ''v'' then ArgpOk (opt\<lparr>verbose := 1\<rparr>)
      else if key = CHR ''T'' then ArgpOk (opt\<lparr>mode := MODE_TALKER\<rparr>)
      else if key = CHR ''L'' then ArgpOk (opt\<lparr>mode := MODE_LISTENER\<rparr>)
      else if key = CHR ''i'' then ArgpOk (opt\<lparr>server_ip := Some arg\<rparr>)
      else if key = CHR ''p'' then
        (case parse_bounded 999 9999 arg of
           Some v \<Rightarrow> ArgpOk (opt\<lparr>port := v\<rparr>)
         | None \<Rightarrow> ArgpExit ''Invalid port number. Check --help.'')
      else if key = CHR ''o'' then ArgpOk (opt\<lparr>output_file := arg\<rparr>)
      else if key = CHR ''u'' then
        (case parse_bounded 999 9999 arg of
           Some v \<Rightarrow> ArgpOk (opt\<lparr>opt_uid := v\<rparr>)
         | None \<Rightarrow> ArgpExit ''Invalid UID. Check --help.'')
      else if key = CHR ''d'' then ArgpOk (opt\<lparr>device := arg\<rparr>)
      else if key = CHR ''t'' then
        (case parse_bounded 1 2000 arg of
           Some v \<Rightarrow> ArgpOk (opt\<lparr>timeout := v\<rparr>)
         | None \<Rightarrow> ArgpExit ''Invalid timeout. Check --help.'')
      else ArgpUnknown)"

text \<open>The table of options, with the help text of each.\<close>

definition tsq_table :: "argp_option list" where
  "tsq_table =
     [Opt ''talker'' (CHR ''T'') None ''Talker mode (read AUXTS)'',
      Opt ''listener'' (CHR ''L'') None ''Listener mode (listen for 2 talker and compare)'',
      Opt ''verbose'' (CHR ''v'') None ''Produce verbose output'',
      Opt ''ip'' (CHR ''i'') (Some ''ADDR'') ''Server IP address (eg. 192.1.2.3)'',
      Opt ''port'' (CHR ''p'') (Some ''PORT'') (''Port number\<newline>'' @ tab @ ''Def: 5678 | Min: 999 | Max: 9999''),
      Opt ''output'' (CHR ''o'') (Some ''FILE'') ''Save output to FILE (eg. temp.txt)'',
      Opt ''device'' (CHR ''d'') (Some ''FILE'') ''PTP device to read (eg. /dev/ptp1)'',
      Opt ''uid'' (CHR ''u'') (Some ''COUNT'') (''Unique Talker ID'' @ tab @ ''Def: 1234 | Min: 999 | Max: 9999''),
      Opt ''timeout'' (CHR ''t'') (Some ''MSEC'') (''Polling timeout in ms'' @ tab @ ''Def: 1100ms | Min: 1ms | Max: 2000ms'')]"

definition tsq_defaults :: tsq_opt where
  "tsq_defaults =
     \<lparr>verbose = 0, mode = 0, server_ip = None, port = 5678,
      output_file = ''tsq-listener-data.txt'', opt_uid = 1234, device = '''', timeout = 1100\<rparr>"

definition tsq_glob_init :: tsq_glob where
  "tsq_glob_init = \<lparr>halt_sig = 0, glob_fp = None, glob_sockfd = 0, glob_ptpfd = - 1\<rparr>"

section \<open>Payload and flag helpers\<close>

fun id_known :: "i32 \<Rightarrow> i32 list \<Rightarrow> nat \<Rightarrow> bool" where
  "id_known u (c # cs) (Suc n) = (if c = u then True else id_known u cs n)"
| "id_known u _ _ = False"

definition validate_payload :: "payload \<Rightarrow> i32 list \<Rightarrow> nat \<Rightarrow> bool" where
  "validate_payload pl cli_ids client_num =
     (if uid pl \<noteq> 0 \<and> secs pl \<noteq> 0 \<and> nsecs pl \<noteq> 0
      then id_known (uid pl) cli_ids client_num
      else False)"

fun data_ready :: "bool list \<Rightarrow> nat \<Rightarrow> bool" where
  "data_ready (f # flags) (Suc n) = (if f = False then False else data_ready flags n)"
| "data_ready _ _ = True"

fun reset_data_ready :: "bool list \<Rightarrow> nat \<Rightarrow> bool list" where
  "reset_data_ready (f # flags) (Suc n) = False # reset_data_ready flags n"
| "reset_data_ready flags _ = flags"

section \<open>Lemmas\<close>

lemma deliver_simps [simp]:
  "glob_fp (deliver sigs g) = glob_fp g" "glob_sockfd (deliver sigs g) = glob_sockfd g"
  "glob_ptpfd (deliver sigs g) = glob_ptpfd g"
  by (induction sigs arbitrary: g) (auto simp: deliver_def sigint_handler_def)

lemma halt_sig_deliver: "halt_sig (deliver sigs g) = (if sigs = [] then halt_sig g else last sigs)"
  by (induction sigs arbitrary: g) (auto simp: deliver_def sigint_handler_def)

lemma deliver_Nil [simp]: "deliver [] g = g"
  by (simp add: deliver_def)

lemma signalled_iff: "signalled g \<longleftrightarrow> halt_sig g \<noteq> 0"
  by (simp add: signalled_def get_signal_def)

lemma id_known_iff: "id_known u cs n \<longleftrightarrow> u \<in> set (take n cs)"
  by (induction u cs n rule: id_known.induct) auto

lemma validate_payload_iff:
  "validate_payload pl ids n \<longleftrightarrow>
     uid pl \<noteq> 0 \<and> secs pl \<noteq> 0 \<and> nsecs pl \<noteq> 0 \<and> uid pl \<in> set (take n ids)"
  by (simp add: validate_payload_def id_known_iff)

lemma data_ready_iff: "data_ready fs n \<longleftrightarrow> list_all id (take n fs)"
  by (induction fs n rule: data_ready.induct) auto

lemma reset_data_ready_eq: "reset_data_ready fs n = replicate (min n (length fs)) False @ drop n fs"
  by (induction fs n rule: reset_data_ready.induct) auto

interpretation tsq_payload: struct_codec payload_bytes payload_of_bytes 24
proof
  show "length (payload_bytes x) = 24" for x
    by (simp add: payload_bytes_def)
  show "payload_of_bytes (payload_bytes x @ rest) = x" for x rest
    by (simp add: payload_of_bytes_def payload_bytes_def get_bytes_def)
qed

lemma payload_of_zeros: "payload_of_bytes (zeros n) = zero_payload"
  by (simp add: payload_of_bytes_def zero_payload_def get_bytes_def zeros_def
      u32_of_bytes_def u64_of_bytes_def)

text \<open>The options the parser leaves behind, whatever the command line.\<close>

definition tsq_opt_ok :: "tsq_opt \<Rightarrow> bool" where
  "tsq_opt_ok opt \<longleftrightarrow>
     verbose opt \<in> {0, 1} \<and> mode opt \<in> {0, MODE_TALKER, MODE_LISTENER} \<and>
     999 \<le> port opt \<and> port opt \<le> 9999 \<and> 999 \<le> opt_uid opt \<and> opt_uid opt \<le> 9999 \<and>
     0 < timeout opt \<and> timeout opt \<le> 2000"

lemma tsq_table_ok: "table_ok tsq_table"
  by code_simp

interpretation tsq_options: option_table tsq_parser tsq_opt_ok tsq_table
proof
  show "tsq_opt_ok opt \<Longrightarrow> tsq_parser key arg opt = ArgpOk opt' \<Longrightarrow> tsq_opt_ok opt'"
    for opt key arg opt'
    unfolding tsq_parser_def
    by (elim argp_elims) (simp_all add: tsq_opt_ok_def)
  show "table_ok tsq_table"
    by (rule tsq_table_ok)
  show "argp_known (tsq_parser k a opt)"
    if "e \<in> set tsq_table" and "ao_key e = Some k" for e k a opt
  proof -
    have "table_keys tsq_table = ''TLvipodut''" by code_simp
    with table_keys_mem [OF that] have "k \<in> set ''TLvipodut''" by simp
    then show ?thesis
      unfolding set_simps by (elim insertE emptyE) (simp_all add: tsq_parser_def)
  qed
  show "tsq_parser k a opt = tsq_parser k b opt"
    if "e \<in> set tsq_table" and "ao_key e = Some k" and "ao_arg e = None" for e k a b opt
  proof -
    have "table_keys (filter (\<lambda>e. ao_arg e = None) tsq_table) = ''TLv''" by code_simp
    with table_keys_no_arg [OF that] have "k \<in> set ''TLv''" by simp
    then show ?thesis
      unfolding set_simps by (elim insertE emptyE) (simp_all add: tsq_parser_def)
  qed
qed

lemma tsq_defaults_ok: "tsq_opt_ok tsq_defaults"
  by (simp add: tsq_opt_ok_def tsq_defaults_def)

end
