(* ===== verification/Tsq_Listener.thy ===== *)
theory Tsq_Listener
  imports Tsq_Core
begin

text \<open>
  \<^verbatim>\<open>listener()\<close> of \<^verbatim>\<open>src/tsq.c\<close>: opening the output file and the listening socket, the loop that
  accepts two talkers, the start command, and the sampling loop that pairs one payload of each
  talker and writes the nanosecond difference of aligned pairs to the output file.

  What the kernel answers is an argument of each step: the descriptors, the bytes a read
  returns (\<open>None\<close> for an error), the descriptors \<^verbatim>\<open>select\<close> reports, and the signals that arrive
  before a look at the halt flag. Diagnostic output under \<^verbatim>\<open>verbose\<close> is left out.

  The abstract listener \<open>abs_client\<close>, \<open>abs_compare\<close> keeps, per talker, the sample it waits to
  pair and at most one held sample; \<open>listener_rel\<close> relates it to the code's flags and arrays.
\<close>

section \<open>State\<close>

record listener_st =
  l_glob :: tsq_glob
  cli_ids :: "i32 list"
  cli_conns :: "fd list"
  accepted :: nat
  cli_data :: "payload list"
  pl_valid_flag :: "bool list"
  skip_slot :: bool
  keep_data_slot :: nat
  keep_data :: payload
  rounds :: i32
  fp_out :: string
  sock_out :: "(fd \<times> bytes) list"

section \<open>Opening the file and the socket\<close>

record sockaddr_in =
  sin_addr :: u32
  sin_port :: u16

record listener_env =
  fopen_ret :: "nat option"
  socket_ret :: fd
  bind_ret :: cint
  getsockname_ret :: cint

text \<open>The uninitialised \<^verbatim>\<open>cli_ids\<close> are \<open>junk\<close>; \<^verbatim>\<open>cli_conns\<close> and the flags have initialisers.\<close>

definition listener_init :: "i32 list \<Rightarrow> tsq_glob \<Rightarrow> listener_st" where
  "listener_init junk g =
     \<lparr>l_glob = g, cli_ids = junk, cli_conns = replicate CLIENT_COUNT 0, accepted = 0,
      cli_data = replicate CLIENT_COUNT zero_payload,
      pl_valid_flag = replicate CLIENT_COUNT False, skip_slot = False, keep_data_slot = 0,
      keep_data = zero_payload, rounds = 0, fp_out = [], sock_out = []\<rparr>"

definition listener_addr :: "(string option \<Rightarrow> u32) \<Rightarrow> tsq_opt \<Rightarrow> sockaddr_in" where
  "listener_addr inet_addr opt =
     \<lparr>sin_addr = inet_addr (server_ip opt),
      sin_port = (if port opt \<noteq> 0 then htons (word_of_int (port opt)) else 0)\<rparr>"

text \<open>The address bound, and the globals with the file and the socket open.\<close>

definition listener_setup ::
  "(string option \<Rightarrow> u32) \<Rightarrow> tsq_opt option \<Rightarrow> listener_env \<Rightarrow> tsq_glob
     \<Rightarrow> tsq_exit + (sockaddr_in \<times> tsq_glob)" where
  "listener_setup inet_addr uopt env g =
     (case uopt of
        None \<Rightarrow> Inl (tsq_error ''[TSQ-L] User option is NULL'' g)
      | Some opt \<Rightarrow>
          let g1 = g\<lparr>glob_fp := fopen_ret env\<rparr>;
              g2 = g1\<lparr>glob_sockfd := socket_ret env\<rparr>
          in if fopen_ret env = None
             then Inl (tsq_error (''[TSQ-L] Error opening file: '' @ output_file opt @ ''\<newline>'') g1)
             else if socket_ret env < 0
             then Inl (tsq_error ''[TSQ-L] Error opening listening socket\<newline>'' g2)
             else if bind_ret env < 0
             then Inl (tsq_error ''[TSQ-L] Error binding listening socket\<newline>'' g2)
             else if getsockname_ret env = - 1
             then Inl (tsq_error ''[TSQ-L] getsockname() failed'' g2)
             else Inr (listener_addr inet_addr opt, g2))"

section \<open>Reading a buffer\<close>

text \<open>
  \<^verbatim>\<open>bzero(recv_buff, BUFFER_SIZE); n = read(fd, recv_buff, sizeof(recv_buff) - 1)\<close>: the buffer
  after a read that returned \<open>bs\<close>, of which at most 255 bytes fit.
\<close>

definition recv_bytes :: "bytes \<Rightarrow> bytes" where
  "recv_bytes bs = take (BUFFER_SIZE - 1) bs"

definition recv_buff :: "bytes \<Rightarrow> bytes" where
  "recv_buff bs = put_bytes 0 (recv_bytes bs) (zeros BUFFER_SIZE)"

section \<open>Accepting the talkers\<close>

record accept_in =
  a_sigs :: "cint list"
  accept_ret :: fd
  a_read :: "bytes option"

definition accept_body :: "accept_in \<Rightarrow> listener_st \<Rightarrow> (tsq_exit, listener_st) run" where
  "accept_body e s0 =
     (let s = s0\<lparr>l_glob := deliver (a_sigs e) (l_glob s0)\<rparr>;
          i = accepted s;
          connfd = accept_ret e
      in if \<not> (i < CLIENT_COUNT \<and> \<not> signalled (l_glob s)) then Done s
         else if connfd < 0 then Running s
         else case a_read e of
            None \<Rightarrow>
              let ex = tsq_error ''[TSQ-L] ERROR reading UID from socket\<newline>'' (l_glob s)
              in Exited (ex\<lparr>ex_calls := Close connfd # ex_calls ex\<rparr>) s
          | Some bs \<Rightarrow>
              Running (s\<lparr>cli_ids := (cli_ids s)[i := atoi (c_string (recv_buff bs))],
                         cli_conns := (cli_conns s)[i := connfd],
                         accepted := i + 1\<rparr>))"

section \<open>The start command\<close>

definition start_msg :: bytes where
  "start_msg = put_bytes 0 (bytes_of_string ''start\<newline>'') (zeros BUFFER_SIZE)"

text \<open>One \<^verbatim>\<open>write\<close> per entry of \<^verbatim>\<open>cli_conns\<close>; the first list is what the writes return.\<close>

fun send_start :: "cint list \<Rightarrow> fd list \<Rightarrow> listener_st \<Rightarrow> tsq_exit + listener_st" where
  "send_start (n # ns) (connfd # conns) s =
     (let s' = s\<lparr>sock_out := sock_out s @ [(connfd, start_msg)]\<rparr>
      in if n < 0 then Inl (tsq_error ''[TSQ-L] Error writing to client socket.\<newline>'' (l_glob s'))
         else send_start ns conns s')"
| "send_start _ _ s = Inr s"

definition start_clients :: "cint list \<Rightarrow> listener_st \<Rightarrow> tsq_exit + listener_st" where
  "start_clients rets s =
     map_sum id (\<lambda>s. s\<lparr>cli_data := replicate CLIENT_COUNT zero_payload\<rparr>)
       (send_start rets (take CLIENT_COUNT (cli_conns s)) s)"

section \<open>One round of the sampling loop\<close>

record client_in =
  c_sigs :: "cint list"
  c_read :: "bytes option"

text \<open>The body of the \<^verbatim>\<open>for\<close> loop over the clients, for client \<open>i\<close>.\<close>

definition listener_client ::
  "fd list \<Rightarrow> nat \<Rightarrow> client_in \<Rightarrow> listener_st \<Rightarrow> (tsq_exit, listener_st) run" where
  "listener_client readfds i e s0 =
     (if cli_conns s0 ! i \<notin> set readfds then Running s0
      else
        let s = s0\<lparr>l_glob := deliver (c_sigs e) (l_glob s0)\<rparr>
        in if signalled (l_glob s)
           then Exited (tsq_error ''[TSQ-L] client socket closed. TSQ will end now.\<newline>'' (l_glob s)) s
           else case c_read e of
              None \<Rightarrow> Exited (tsq_error ''[TSQ-L] ERROR reading socket. Exiting.\<newline>'' (l_glob s)) s
            | Some bs \<Rightarrow>
                if skip_slot s \<and> keep_data_slot s = i
                then Running (s\<lparr>cli_data := (cli_data s)[i := keep_data s],
                                pl_valid_flag := (pl_valid_flag s)[i := True]\<rparr>)
                else if 0 < length (recv_bytes bs)
                then let temp_data = payload_of_bytes (recv_buff bs)
                     in if validate_payload temp_data (cli_ids s) CLIENT_COUNT
                        then Running (s\<lparr>pl_valid_flag := (pl_valid_flag s)[i := True],
                                        cli_data := (cli_data s)[i := temp_data]\<rparr>)
                        else Running s
                else Running s)"

text \<open>The line \<^verbatim>\<open>"%d %lld %ld\n"\<close> of an aligned pair.\<close>

definition result_line :: "i32 \<Rightarrow> i64 \<Rightarrow> i64 \<Rightarrow> string" where
  "result_line r secs_error nsecs_error =
     show_int (sint r) @ '' '' @ show_int (sint secs_error) @ '' '' @
     show_int (sint nsecs_error) @ ''\<newline>''"

text \<open>The comparison once both flags are set: the \<^verbatim>\<open>switch (secs_error)\<close> and the reset after it.\<close>

definition listener_compare :: "listener_st \<Rightarrow> listener_st" where
  "listener_compare s =
     (if data_ready (pl_valid_flag s) CLIENT_COUNT then
        let secs_error = secs (cli_data s ! 0) - secs (cli_data s ! 1);
            nsecs_error = nsecs (cli_data s ! 0) - nsecs (cli_data s ! 1);
            s1 = (if secs_error = 1
                  then s\<lparr>skip_slot := True, keep_data_slot := 0, keep_data := cli_data s ! 0\<rparr>
                  else if secs_error = - 1
                  then s\<lparr>skip_slot := True, keep_data_slot := 1, keep_data := cli_data s ! 1\<rparr>
                  else if secs_error = 0
                  then s\<lparr>skip_slot := False, keep_data := zero_payload,
                         fp_out := fp_out s @ result_line (rounds s) secs_error nsecs_error,
                         rounds := rounds s + 1\<rparr>
                  else s\<lparr>skip_slot := False, keep_data := zero_payload\<rparr>)
        in s1\<lparr>pl_valid_flag := reset_data_ready (pl_valid_flag s1) CLIENT_COUNT,
              cli_data := replicate CLIENT_COUNT zero_payload\<rparr>
      else s)"

text \<open>The clients of a round, in order of their index.\<close>

fun listener_clients ::
  "fd list \<Rightarrow> nat \<Rightarrow> client_in list \<Rightarrow> listener_st \<Rightarrow> (tsq_exit, listener_st) run" where
  "listener_clients readfds i [] s = Running s"
| "listener_clients readfds i (e # es) s =
     (case listener_client readfds i e s of
        Running s' \<Rightarrow> listener_clients readfds (Suc i) es s'
      | Done s' \<Rightarrow> Done s'
      | Exited x s' \<Rightarrow> Exited x s')"

record round_in =
  r_sigs :: "cint list"
  activity :: cint
  errno_eintr :: bool
  ready_fds :: "fd list"
  clients :: "client_in \<times> client_in"

text \<open>
  One round: the loop head, \<^verbatim>\<open>select\<close> on the two descriptors, the two clients, the comparison.
  \<^verbatim>\<open>FD_ISSET\<close> after the call holds of the requested descriptors the kernel reports.
\<close>

definition listener_round :: "round_in \<Rightarrow> listener_st \<Rightarrow> (tsq_exit, listener_st) run" where
  "listener_round r s0 =
     (let s = s0\<lparr>l_glob := deliver (r_sigs r) (l_glob s0)\<rparr>
      in if signalled (l_glob s) then Done s
         else if activity r < 0 \<and> \<not> errno_eintr r
         then Exited (tsq_error ''[TSQ-L] Select error\<newline>'' (l_glob s)) s
         else
           let readfds = filter (\<lambda>c. c \<in> set (ready_fds r)) (cli_conns s)
           in case listener_clients readfds 0 [fst (clients r), snd (clients r)] s of
                Running s' \<Rightarrow> Running (listener_compare s')
              | Done s' \<Rightarrow> Done s'
              | Exited x s' \<Rightarrow> Exited x s')"

definition listener_loop :: "round_in list \<Rightarrow> listener_st \<Rightarrow> (tsq_exit, listener_st) run" where
  "listener_loop = iterate listener_round"

text \<open>After the loop the socket and the file are closed.\<close>

definition listener_finish :: "listener_st \<Rightarrow> tsq_call list" where
  "listener_finish s =
     Close (glob_sockfd (l_glob s)) #
     (case glob_fp (l_glob s) of Some fp \<Rightarrow> [Fclose fp] | None \<Rightarrow> [])"

section \<open>The whole function\<close>

text \<open>
  How the function ends on given answers: still waiting in one of its two loops, the exit of
  \<^verbatim>\<open>error()\<close>, or a return with the final state and the closing calls.
\<close>

datatype listener_end =
    L_waiting listener_st
  | L_exit tsq_exit
  | L_return listener_st "tsq_call list"

definition listener ::
  "(string option \<Rightarrow> u32) \<Rightarrow> tsq_opt option \<Rightarrow> listener_env \<Rightarrow> i32 list \<Rightarrow> accept_in list
     \<Rightarrow> cint list \<Rightarrow> round_in list \<Rightarrow> tsq_glob \<Rightarrow> listener_end" where
  "listener inet_addr uopt env junk accs rets rs g =
     (case listener_setup inet_addr uopt env g of
        Inl x \<Rightarrow> L_exit x
      | Inr (addr, g') \<Rightarrow>
          (case iterate accept_body accs (listener_init junk g') of
             Running s \<Rightarrow> L_waiting s
           | Exited x s \<Rightarrow> L_exit x
           | Done s \<Rightarrow>
               (case start_clients rets s of
                  Inl x \<Rightarrow> L_exit x
                | Inr s' \<Rightarrow>
                    (case listener_loop rs s' of
                       Running s'' \<Rightarrow> L_waiting s''
                     | Exited x s'' \<Rightarrow> L_exit x
                     | Done s'' \<Rightarrow> L_return s'' (listener_finish s'')))))"

section \<open>The abstract listener\<close>

text \<open>
  Per talker the sample that waits for its partner, at most one sample that is held back for
  the next round, and the pairs found to belong to the same second.
\<close>

record abs_listener =
  pend :: "nat \<Rightarrow> payload option"
  held :: "(nat \<times> payload) option"
  pairs :: "(payload \<times> payload) list"

definition abs_sample :: "i32 list \<Rightarrow> nat \<Rightarrow> bytes \<Rightarrow> abs_listener \<Rightarrow> abs_listener" where
  "abs_sample ids i bs a =
     (let p = payload_of_bytes (recv_buff bs)
      in if recv_bytes bs \<noteq> [] \<and> validate_payload p ids CLIENT_COUNT
         then a\<lparr>pend := (pend a)(i := Some p)\<rparr> else a)"

definition abs_client :: "i32 list \<Rightarrow> nat \<Rightarrow> bytes option \<Rightarrow> abs_listener \<Rightarrow> abs_listener" where
  "abs_client ids i rd a =
     (case rd of
        None \<Rightarrow> a
      | Some bs \<Rightarrow>
          (case held a of
             None \<Rightarrow> abs_sample ids i bs a
           | Some (j, k) \<Rightarrow> if j = i then a\<lparr>pend := (pend a)(i := Some k)\<rparr>
                            else abs_sample ids i bs a))"

definition abs_compare :: "abs_listener \<Rightarrow> abs_listener" where
  "abs_compare a =
     (case (pend a 0, pend a 1) of
        (Some p, Some q) \<Rightarrow>
          a\<lparr>pend := (\<lambda>_. None),
            held := (if secs p = secs q + 1 then Some (0, p)
                     else if secs q = secs p + 1 then Some (1, q) else None),
            pairs := (if secs p = secs q then pairs a @ [(p, q)] else pairs a)\<rparr>
      | _ \<Rightarrow> a)"

definition abs_round ::
  "i32 list \<Rightarrow> bytes option \<times> bytes option \<Rightarrow> abs_listener \<Rightarrow> abs_listener" where
  "abs_round ids rd a = abs_compare (abs_client ids 1 (snd rd) (abs_client ids 0 (fst rd) a))"

text \<open>The file of a list of pairs: one numbered line each.\<close>

fun render :: "nat \<Rightarrow> (payload \<times> payload) list \<Rightarrow> string" where
  "render k [] = []"
| "render k ((p, q) # ps) = result_line (of_nat k) 0 (nsecs p - nsecs q) @ render (Suc k) ps"

definition aligned_pairs :: "i32 list \<Rightarrow> (payload \<times> payload) list \<Rightarrow> bool" where
  "aligned_pairs ids ps \<longleftrightarrow>
     (\<forall>(p, q) \<in> set ps. secs p = secs q \<and> validate_payload p ids CLIENT_COUNT
        \<and> validate_payload q ids CLIENT_COUNT)"

section \<open>Invariant and refinement\<close>

definition listener_inv :: "listener_st \<Rightarrow> bool" where
  "listener_inv s \<longleftrightarrow>
     length (cli_conns s) = CLIENT_COUNT \<and> length (cli_data s) = CLIENT_COUNT \<and>
     length (pl_valid_flag s) = CLIENT_COUNT \<and>
     (\<forall>i < CLIENT_COUNT. pl_valid_flag s ! i \<longrightarrow>
        validate_payload (cli_data s ! i) (cli_ids s) CLIENT_COUNT) \<and>
     (skip_slot s \<longrightarrow> keep_data_slot s < CLIENT_COUNT \<and>
        validate_payload (keep_data s) (cli_ids s) CLIENT_COUNT)"

definition listener_rel :: "listener_st \<Rightarrow> abs_listener \<Rightarrow> bool" where
  "listener_rel s a \<longleftrightarrow>
     listener_inv s \<and>
     (\<forall>i < CLIENT_COUNT. pend a i = (if pl_valid_flag s ! i then Some (cli_data s ! i) else None)) \<and>
     held a = (if skip_slot s then Some (keep_data_slot s, keep_data s) else None) \<and>
     fp_out s = render 0 (pairs a) \<and> rounds s = of_nat (length (pairs a)) \<and>
     aligned_pairs (cli_ids s) (pairs a)"

lemma less_CLIENT_COUNT: "i < CLIENT_COUNT \<longleftrightarrow> i = 0 \<or> i = 1"
  by (auto simp: CLIENT_COUNT_def)

lemma two_clients:
  "data_ready [True, True] CLIENT_COUNT" "\<not> data_ready [x, False] CLIENT_COUNT"
  "reset_data_ready [x, y] CLIENT_COUNT = [False, False]" "replicate CLIENT_COUNT z = [z, z]"
  by (simp_all add: CLIENT_COUNT_def numeral_2_eq_2)

lemma render_snoc:
  "render k (ps @ [(p, q)]) =
     render k ps @ result_line (of_nat (k + length ps)) 0 (nsecs p - nsecs q)"
  by (induction k ps rule: render.induct) auto

lemma listener_rel_glob [simp]: "listener_rel (s\<lparr>l_glob := g\<rparr>) a = listener_rel s a"
  by (simp add: listener_rel_def listener_inv_def)

lemma listener_client_ids:
  "cli_ids (run_state (listener_client fds i e s)) = cli_ids s"
  "cli_conns (run_state (listener_client fds i e s)) = cli_conns s"
  by (simp_all add: listener_client_def Let_def split: option.split)

text \<open>What client \<open>i\<close> contributes to a round: the bytes read, if its descriptor is ready.\<close>

definition arrival :: "fd list \<Rightarrow> nat \<Rightarrow> client_in \<Rightarrow> listener_st \<Rightarrow> bytes option" where
  "arrival fds i e s = (if cli_conns s ! i \<in> set fds then c_read e else None)"

lemma listener_client_not_done [simp]: "listener_client fds i e s \<noteq> Done s'"
  by (auto simp: listener_client_def Let_def split: option.split)

lemma flag_update_rel:
  assumes "listener_rel s a" and "i < CLIENT_COUNT"
    and "validate_payload p (cli_ids s) CLIENT_COUNT"
  shows "listener_rel (s\<lparr>pl_valid_flag := (pl_valid_flag s)[i := True],
                         cli_data := (cli_data s)[i := p]\<rparr>) (a\<lparr>pend := (pend a)(i := Some p)\<rparr>)"
    and "listener_rel (s\<lparr>cli_data := (cli_data s)[i := p],
                          pl_valid_flag := (pl_valid_flag s)[i := True]\<rparr>)
           (a\<lparr>pend := (pend a)(i := Some p)\<rparr>)"
  using assms by (auto simp: listener_rel_def listener_inv_def nth_list_update)

lemma listener_client_rel:
  assumes rel: "listener_rel s a" and i: "i < CLIENT_COUNT"
  shows "listener_client fds i e s = Running s' \<Longrightarrow>
           listener_rel s' (abs_client (cli_ids s) i (arrival fds i e s) a)"
    and "listener_client fds i e s = Exited x s' \<Longrightarrow> listener_rel s' a"
proof -
  define s1 where "s1 = s\<lparr>l_glob := deliver (c_sigs e) (l_glob s)\<rparr>"
  have rel1: "listener_rel s1 a" and ids: "cli_ids s1 = cli_ids s"
    using rel by (simp_all add: s1_def)
  have held: "held a = (if skip_slot s1 then Some (keep_data_slot s1, keep_data s1) else None)"
    and keep: "skip_slot s1 \<Longrightarrow> validate_payload (keep_data s1) (cli_ids s1) CLIENT_COUNT"
    using rel1 by (auto simp: listener_rel_def listener_inv_def)
  note upd = flag_update_rel [OF rel1 i]
  show "listener_rel s' (abs_client (cli_ids s) i (arrival fds i e s) a)"
    if run: "listener_client fds i e s = Running s'"
  proof (cases "cli_conns s ! i \<in> set fds")
    case False
    with run rel show ?thesis
      by (simp add: listener_client_def arrival_def abs_client_def)
  next
    case True
    with run obtain bs where bs: "c_read e = Some bs"
      by (auto simp: listener_client_def Let_def split: if_splits option.splits)
    with run True show ?thesis
      using held keep upd rel1 ids
      by (auto simp: listener_client_def arrival_def abs_client_def abs_sample_def s1_def [symmetric]
          Let_def split: if_splits)
  qed
  show "listener_rel s' a" if "listener_client fds i e s = Exited x s'"
    using that rel by (auto simp: listener_client_def Let_def split: if_splits option.splits)
qed

lemma listener_client_conns:
  "listener_client fds i e s = Running s' \<Longrightarrow> cli_ids s' = cli_ids s \<and> cli_conns s' = cli_conns s"
  using listener_client_ids [of fds i e s] by simp

lemma secs_error_cases:
  fixes p q :: i64
  shows "p - q = 1 \<longleftrightarrow> p = q + 1" "p - q = - 1 \<longleftrightarrow> q = p + 1" "p - q = 0 \<longleftrightarrow> p = q"
  by (auto simp: algebra_simps)

lemma listener_compare_rel:
  assumes rel: "listener_rel s a"
  shows "listener_rel (listener_compare s) (abs_compare a)"
proof -
  have len: "length (pl_valid_flag s) = 2" "length (cli_data s) = 2" "length (cli_conns s) = 2"
    using rel by (simp_all add: listener_rel_def listener_inv_def CLIENT_COUNT_def)
  obtain f0 f1 where f: "pl_valid_flag s = [f0, f1]"
    using len(1) by (auto simp: numeral_2_eq_2 length_Suc_conv)
  obtain d0 d1 where d: "cli_data s = [d0, d1]"
    using len(2) by (auto simp: numeral_2_eq_2 length_Suc_conv)
  have ready: "data_ready (pl_valid_flag s) CLIENT_COUNT \<longleftrightarrow> f0 \<and> f1"
    by (simp add: f data_ready_iff CLIENT_COUNT_def)
  have pend: "pend a 0 = (if f0 then Some d0 else None)" "pend a 1 = (if f1 then Some d1 else None)"
    using rel by (auto simp: listener_rel_def f d CLIENT_COUNT_def)
  show ?thesis
  proof (cases "f0 \<and> f1")
    case False
    then have "abs_compare a = a"
      using pend by (auto simp: abs_compare_def split: option.splits)
    moreover from False ready have "listener_compare s = s"
      unfolding listener_compare_def by (simp only: if_False simp_thms)
    ultimately show ?thesis using rel by simp
  next
    case True
    have fields: "fp_out s = render 0 (pairs a)" "rounds s = of_nat (length (pairs a))"
      "aligned_pairs (cli_ids s) (pairs a)"
      using rel by (simp_all add: listener_rel_def)
    have val: "validate_payload d0 (cli_ids s) CLIENT_COUNT" "validate_payload d1 (cli_ids s) CLIENT_COUNT"
      using rel True by (auto simp: listener_rel_def listener_inv_def f d less_CLIENT_COUNT)
    have cc: "CLIENT_COUNT = 2" "Suc (Suc 0) = CLIENT_COUNT"
      by (simp_all add: CLIENT_COUNT_def)
    consider "secs d0 = secs d1 + 1" | "secs d1 = secs d0 + 1" "secs d0 \<noteq> secs d1 + 1"
      | "secs d0 = secs d1"
      | "secs d0 \<noteq> secs d1 + 1" "secs d1 \<noteq> secs d0 + 1" "secs d0 \<noteq> secs d1"
      by blast
    then show ?thesis
      by cases
        (use True ready pend f d fields val two_clients(3,4) len(3) cc(1) in
          \<open>auto simp: listener_compare_def abs_compare_def listener_rel_def listener_inv_def
             secs_error_cases less_CLIENT_COUNT aligned_pairs_def render_snoc cc(2)\<close>)
  qed
qed

definition arrivals :: "round_in \<Rightarrow> listener_st \<Rightarrow> bytes option \<times> bytes option" where
  "arrivals r s =
     (let fds = filter (\<lambda>c. c \<in> set (ready_fds r)) (cli_conns s)
      in (arrival fds 0 (fst (clients r)) s, arrival fds 1 (snd (clients r)) s))"

lemma listener_round_rel:
  assumes rel: "listener_rel s a" and run: "listener_round r s = Running s'"
  shows "listener_rel s' (abs_round (cli_ids s) (arrivals r s) a)"
proof -
  define t where "t = s\<lparr>l_glob := deliver (r_sigs r) (l_glob s)\<rparr>"
  define fds where "fds = filter (\<lambda>c. c \<in> set (ready_fds r)) (cli_conns s)"
  have relt: "listener_rel t a" and ids: "cli_ids t = cli_ids s" "cli_conns t = cli_conns s"
    using rel by (simp_all add: t_def)
  from run obtain u v where u: "listener_client fds 0 (fst (clients r)) t = Running u"
    and v: "listener_client fds 1 (snd (clients r)) u = Running v"
    and s': "s' = listener_compare v"
    by (auto simp: listener_round_def Let_def fds_def t_def split: run.splits if_splits)
  have zero: "0 < CLIENT_COUNT" "1 < CLIENT_COUNT" by (simp_all add: CLIENT_COUNT_def)
  note idsu = listener_client_conns [OF u]
  from listener_client_rel(1) [OF relt zero(1) u]
  have "listener_rel u (abs_client (cli_ids s) 0 (arrival fds 0 (fst (clients r)) s) a)"
    by (simp add: ids arrival_def)
  from listener_client_rel(1) [OF this zero(2) v]
  have "listener_rel v (abs_client (cli_ids s) 1 (arrival fds 1 (snd (clients r)) s)
          (abs_client (cli_ids s) 0 (arrival fds 0 (fst (clients r)) s) a))"
    using idsu ids by (simp add: arrival_def)
  from listener_compare_rel [OF this] show ?thesis
    by (simp add: s' abs_round_def arrivals_def Let_def fds_def)
qed

text \<open>States the abstract listener accounts for.\<close>

definition listener_ok :: "listener_st \<Rightarrow> bool" where
  "listener_ok s \<longleftrightarrow> (\<exists>a. listener_rel s a)"

lemma listener_ok_glob [simp]: "listener_ok (s\<lparr>l_glob := g\<rparr>) = listener_ok s"
  by (simp add: listener_ok_def)

lemma listener_ok_compare: "listener_ok s \<Longrightarrow> listener_ok (listener_compare s)"
  unfolding listener_ok_def by (blast dest: listener_compare_rel)

lemma listener_ok_client:
  assumes "listener_ok s" and "i < CLIENT_COUNT"
  shows "listener_ok (run_state (listener_client fds i e s))"
  using assms listener_client_rel [of s _ i fds e] unfolding listener_ok_def
  by (cases "listener_client fds i e s") auto

lemma listener_ok_clients:
  "listener_ok s \<Longrightarrow> i + length es \<le> CLIENT_COUNT \<Longrightarrow>
     listener_ok (run_state (listener_clients fds i es s))"
proof (induction es arbitrary: i s)
  case Nil
  then show ?case by simp
next
  case (Cons e es)
  then have "listener_ok (run_state (listener_client fds i e s))"
    by (intro listener_ok_client) simp_all
  with Cons show ?case
    by (cases "listener_client fds i e s") auto
qed

lemma listener_ok_round:
  assumes "listener_ok s"
  shows "listener_ok (run_state (listener_round r s))"
proof -
  define t where "t = s\<lparr>l_glob := deliver (r_sigs r) (l_glob s)\<rparr>"
  have okt: "listener_ok t" using assms by (simp add: t_def)
  define fds where "fds = filter (\<lambda>c. c \<in> set (ready_fds r)) (cli_conns t)"
  have "listener_ok (run_state (listener_clients fds 0 [fst (clients r), snd (clients r)] t))"
    by (rule listener_ok_clients [OF okt]) (simp add: CLIENT_COUNT_def)
  then show ?thesis
    using okt unfolding listener_round_def t_def [symmetric] Let_def fds_def [symmetric]
    by (auto split: run.splits simp del: listener_clients.simps intro: listener_ok_compare)
qed

text \<open>The sampling loop keeps the refinement: the contract of \<open>inv_loop\<close> for its body.\<close>

interpretation sampling: inv_loop listener_round listener_ok
  by unfold_locales (rule listener_ok_round)

lemma listener_inv_init:
  assumes "length (cli_conns s) = CLIENT_COUNT" and "pl_valid_flag s = replicate CLIENT_COUNT False"
    and "\<not> skip_slot s" and "cli_data s = replicate CLIENT_COUNT zero_payload"
    and "fp_out s = []" and "rounds s = 0"
  shows "listener_rel s \<lparr>pend = (\<lambda>_. None), held = None, pairs = []\<rparr>"
  using assms by (auto simp: listener_rel_def listener_inv_def aligned_pairs_def)

text \<open>Accepting and starting leave the sampling state at its initial value.\<close>

definition listener_fresh :: "listener_st \<Rightarrow> bool" where
  "listener_fresh s \<longleftrightarrow>
     length (cli_conns s) = CLIENT_COUNT \<and> pl_valid_flag s = replicate CLIENT_COUNT False \<and>
     \<not> skip_slot s \<and> fp_out s = [] \<and> rounds s = 0"

interpretation accepting: inv_loop accept_body listener_fresh
proof
  show "listener_fresh s \<Longrightarrow> listener_fresh (run_state (accept_body e s))" for e s
    by (auto simp: accept_body_def listener_fresh_def Let_def split: option.split)
qed

lemma listener_fresh_init: "listener_fresh (listener_init junk g)"
  by (simp add: listener_fresh_def listener_init_def)

lemma send_start_fresh:
  "listener_fresh s \<Longrightarrow> send_start ns cs s = Inr s' \<Longrightarrow> listener_fresh s'"
proof (induction ns cs s rule: send_start.induct)
  case (1 n ns connfd conns s)
  then show ?case
    by (auto simp: Let_def listener_fresh_def split: if_splits)
qed simp_all

lemma start_clients_ok:
  assumes "listener_fresh s" and "start_clients ns s = Inr s'"
  shows "listener_ok s'"
proof -
  obtain t where t: "send_start ns (take CLIENT_COUNT (cli_conns s)) s = Inr t"
    and s': "s' = t\<lparr>cli_data := replicate CLIENT_COUNT zero_payload\<rparr>"
    using assms(2)
    by (cases "send_start ns (take CLIENT_COUNT (cli_conns s)) s") (auto simp: start_clients_def)
  from send_start_fresh [OF assms(1) t] show ?thesis
    unfolding s' listener_ok_def by - (rule exI, rule listener_inv_init, simp_all add: listener_fresh_def)
qed

lemma listener_round_ids:
  assumes "listener_round r s = Running s'"
  shows "cli_ids s' = cli_ids s" and "cli_conns s' = cli_conns s"
proof -
  have cmp: "cli_ids (listener_compare v) = cli_ids v" "cli_conns (listener_compare v) = cli_conns v" for v
    by (simp_all add: listener_compare_def Let_def)
  show "cli_ids s' = cli_ids s" "cli_conns s' = cli_conns s"
    using assms by (auto simp: listener_round_def Let_def cmp split: run.splits if_splits
        dest!: listener_client_conns)
qed

lemma listener_loop_rel:
  "listener_rel s a \<Longrightarrow> iterate listener_round rs s = Running s' \<Longrightarrow>
     listener_rel s' (fold (\<lambda>r. abs_round (cli_ids s) (arrivals r s)) rs a)"
proof (induction rs arbitrary: s a)
  case Nil
  then show ?case by simp
next
  case (Cons r rs)
  then obtain t where t: "listener_round r s = Running t" and it: "iterate listener_round rs t = Running s'"
    by (auto split: run.splits)
  have arr: "arrivals r' t = arrivals r' s" for r'
    by (simp add: arrivals_def arrival_def listener_round_ids [OF t])
  from Cons.IH [OF listener_round_rel [OF Cons.prems(1) t] it] show ?case
    by (simp add: arr listener_round_ids [OF t])
qed

text \<open>Entries of \<^verbatim>\<open>cli_conns\<close> without a talker keep their initial 0.\<close>

definition unconnected :: "listener_st \<Rightarrow> bool" where
  "unconnected s \<longleftrightarrow>
     length (cli_conns s) = CLIENT_COUNT \<and> (\<forall>i < CLIENT_COUNT. accepted s \<le> i \<longrightarrow> cli_conns s ! i = 0)"

interpretation accept_unconnected: inv_loop accept_body unconnected
proof
  show "unconnected s \<Longrightarrow> unconnected (run_state (accept_body e s))" for e s
    by (auto simp: accept_body_def unconnected_def Let_def split: option.split)
qed

lemma unconnected_init: "unconnected (listener_init junk g)"
  by (simp add: unconnected_def listener_init_def)

lemma accept_counts:
  "iterate accept_body accs s0 = Running s \<Longrightarrow> accepted s \<le> accepted s0 + length accs"
proof (induction accs arbitrary: s0)
  case Nil
  then show ?case by simp
next
  case (Cons e es)
  then obtain t where t: "accept_body e s0 = Running t" and it: "iterate accept_body es t = Running s"
    by (auto split: run.splits)
  have "accepted t \<le> Suc (accepted s0)"
    using t by (auto simp: accept_body_def Let_def split: if_splits option.splits)
  with Cons.IH [OF it] show ?case by simp
qed

section \<open>A concrete session\<close>

text \<open>A round in which both descriptors are ready, with the bytes their reads return.\<close>

definition round_of :: "fd \<times> fd \<Rightarrow> bytes \<Rightarrow> bytes \<Rightarrow> round_in" where
  "round_of conns bs0 bs1 =
     \<lparr>r_sigs = [], activity = 2, errno_eintr = False, ready_fds = [fst conns, snd conns],
      clients = (\<lparr>c_sigs = [], c_read = Some bs0\<rparr>, \<lparr>c_sigs = [], c_read = Some bs1\<rparr>)\<rparr>"

definition ex_payload :: "i32 \<Rightarrow> i64 \<Rightarrow> i64 \<Rightarrow> payload" where
  "ex_payload u sec ns = \<lparr>uid = u, seq = 0, secs = sec, nsecs = ns\<rparr>"

definition ex_accept :: "cint list \<Rightarrow> fd \<Rightarrow> string \<Rightarrow> accept_in" where
  "ex_accept sigs c txt = \<lparr>a_sigs = sigs, accept_ret = c, a_read = Some (bytes_of_string txt)\<rparr>"

definition ex_listener :: "accept_in list \<Rightarrow> round_in list \<Rightarrow> listener_end" where
  "ex_listener accs rs =
     listener (\<lambda>_. 0) (Some tsq_defaults)
       \<lparr>fopen_ret = Some 3, socket_ret = 4, bind_ret = 0, getsockname_ret = 0\<rparr> [0, 0]
       accs [256, 256] rs tsq_glob_init"

definition ex_state :: listener_st where
  "ex_state = (listener_init [1234, 1235] tsq_glob_init)\<lparr>cli_conns := [5, 6]\<rparr>"

lemma ex_state_rel: "listener_rel ex_state \<lparr>pend = (\<lambda>_. None), held = None, pairs = []\<rparr>"
  by (rule listener_inv_init) (simp_all add: ex_state_def listener_init_def CLIENT_COUNT_def)

section \<open>Properties\<close>

text \<open>
  C1: the sampling loop refines the abstract listener. From related states, any number of
  rounds that complete lead to related states, where the abstract listener took the samples
  that arrived in those rounds.
\<close>

theorem listener_refines:
  assumes "listener_rel s a" and "listener_loop rs s = Running s'"
  shows "listener_rel s' (fold (\<lambda>r. abs_round (cli_ids s) (arrivals r s)) rs a)"
  using assms unfolding listener_loop_def by (rule listener_loop_rel)

theorem listener_refines_witness:
  "\<exists>s'. listener_loop [round_of (5, 6) [] []] ex_state = Running s' \<and>
     listener_rel s' (abs_round [1234, 1235] (Some [], Some [])
       \<lparr>pend = (\<lambda>_. None), held = None, pairs = []\<rparr>)"
proof -
  have run: "listener_loop [round_of (5, 6) [] []] ex_state = Running ex_state"
    by (simp add: listener_loop_def listener_round_def round_of_def Let_def signalled_iff
        listener_client_def ex_state_def listener_init_def tsq_glob_init_def recv_bytes_def
        listener_compare_def CLIENT_COUNT_def numeral_2_eq_2)
  have arr: "arrivals (round_of (5, 6) [] []) ex_state = (Some [], Some [])"
    by (simp add: arrivals_def arrival_def round_of_def ex_state_def)
  show ?thesis
    using listener_refines [OF ex_state_rel run] run
    by (simp add: arr) (simp add: ex_state_def listener_init_def)
qed



text \<open>
  Recovery from a one-second misalignment. When talker 0 is one second ahead of talker 1,
  the pair is not logged; in the next round the sample of talker 1 for that second is logged
  against the held sample of talker 0, whatever talker 0 has sent in the meantime.
\<close>

theorem listener_realigns:
  assumes "cli_conns s = [c0, c1]" and "pl_valid_flag s = [False, False]" and "length (cli_data s) = 2"
    and "\<not> skip_slot s" and "halt_sig (l_glob s) = 0"
    and "validate_payload p (cli_ids s) CLIENT_COUNT" and "validate_payload q (cli_ids s) CLIENT_COUNT"
    and "validate_payload q' (cli_ids s) CLIENT_COUNT"
    and "secs p = secs q + 1" and "secs q' = secs p"
    and "m0 = payload_bytes p" and "m1 = payload_bytes q" and "m1' = payload_bytes q'"
  shows "\<exists>s1 s2. listener_round (round_of (c0, c1) m0 m1) s = Running s1 \<and> fp_out s1 = fp_out s \<and>
           listener_round (round_of (c0, c1) bs m1') s1 = Running s2 \<and>
           fp_out s2 = fp_out s @ result_line (rounds s) 0 (nsecs p - nsecs q')"
proof -
  have dec: "payload_of_bytes (recv_buff (payload_bytes x)) = x" "recv_bytes (payload_bytes x) \<noteq> []" for x
    using tsq_payload.dec_enc [of x] tsq_payload.enc_length [of x]
    by (auto simp: recv_buff_def put_bytes_def recv_bytes_def BUFFER_SIZE_def)
  obtain d0 d1 where d: "cli_data s = [d0, d1]"
    using assms(3) by (auto simp: numeral_2_eq_2 length_Suc_conv)
  show ?thesis
    using assms d
    by (simp add: listener_round_def round_of_def Let_def signalled_iff listener_client_def dec
        listener_compare_def two_clients secs_error_cases)
qed

theorem listener_realigns_witness:
  "\<exists>s1 s2. listener_round (round_of (5, 6) (payload_bytes (ex_payload 1234 11 20))
             (payload_bytes (ex_payload 1235 10 15))) ex_state = Running s1 \<and> fp_out s1 = fp_out ex_state \<and>
     listener_round (round_of (5, 6) [] (payload_bytes (ex_payload 1235 11 17))) s1 = Running s2 \<and>
     fp_out s2 = fp_out ex_state @ result_line (rounds ex_state) 0 (20 - 17)"
  using listener_realigns [where s = ex_state and p = "ex_payload 1234 11 20"
      and q = "ex_payload 1235 10 15" and q' = "ex_payload 1235 11 17" and bs = "[]",
      OF _ _ _ _ _ _ _ _ _ _ refl refl refl]
  by (simp add: ex_state_def listener_init_def ex_payload_def validate_payload_iff
      CLIENT_COUNT_def tsq_glob_init_def replicate_2)

text \<open>
  A signal that arrives while the listener still waits for its talkers does not stop it at
  once. It leaves the accept loop with fewer than two connections and sends the start command
  all the same, to descriptor 0, the standard input of the process.
\<close>

theorem listener_start_on_stdin:
  assumes "length accs < CLIENT_COUNT"
    and "iterate accept_body accs (listener_init junk g) = Running s" and "sig \<noteq> 0"
    and "0 \<le> n0" and "0 \<le> n1"
  shows "\<exists>t s'. iterate accept_body (accs @ [ex_accept [sig] c txt]) (listener_init junk g) = Done t \<and>
           start_clients [n0, n1] t = Inr s' \<and> (0, start_msg) \<in> set (sock_out s')"
proof -
  have "accepted s \<le> accepted (listener_init junk g) + length accs"
    using assms(2) by (rule accept_counts)
  then have k: "accepted s \<le> length accs" "unconnected s"
    using accept_unconnected.inv_running [OF unconnected_init assms(2)]
    by (simp_all add: listener_init_def)
  define t where "t = s\<lparr>l_glob := deliver [sig] (l_glob s)\<rparr>"
  have fin: "iterate accept_body (accs @ [ex_accept [sig] c txt]) (listener_init junk g) = Done t"
    using assms(2,3)
    by (simp add: iterate_append accept_body_def Let_def ex_accept_def t_def signalled_iff
        halt_sig_deliver)
  have zero: "cli_conns t ! 1 = 0" and len: "length (cli_conns t) = 2"
    using k assms(1) by (auto simp: t_def CLIENT_COUNT_def unconnected_def)
  obtain x where conns: "cli_conns t = [x, 0]"
    using zero len by (auto simp: numeral_2_eq_2 length_Suc_conv)
  show ?thesis
    using fin conns assms(4,5) by (simp add: start_clients_def CLIENT_COUNT_def numeral_2_eq_2 Let_def)
qed

theorem listener_start_on_stdin_witness:
  "\<exists>t s'. iterate accept_body ([] @ [ex_accept [2] 5 '''']) (listener_init [0, 0] tsq_glob_init) = Done t \<and>
     start_clients [256, 256] t = Inr s' \<and> (0, start_msg) \<in> set (sock_out s')"
  by (rule listener_start_on_stdin [where sig = 2]) (simp_all add: CLIENT_COUNT_def)

end
