(* ===== verification/Tsq_Talker.thy ===== *)
theory Tsq_Talker
  imports Tsq_Core
begin

text \<open>
  \<^verbatim>\<open>talker()\<close> of \<^verbatim>\<open>src/tsq.c\<close>: the connection and the exchange of identifier and start command,
  opening the PTP device, and the loop that turns external time stamps into payloads. As for the
  listener, what the kernel answers is an argument: return values, bytes read, time-stamp events.
\<close>

section \<open>Connecting\<close>

text \<open>\<^verbatim>\<open>bzero\<close>, then \<^verbatim>\<open>snprintf(send_buff, sizeof(send_buff), "%d\n", uid)\<close>: the buffer written.\<close>

definition uid_msg :: "i32 \<Rightarrow> bytes" where
  "uid_msg u = put_bytes 0 (bytes_of_string (show_int (sint u) @ ''\<newline>'')) (zeros BUFFER_SIZE)"

definition talker_port :: "tsq_opt \<Rightarrow> u16" where
  "talker_port opt = htons (word_of_int (port opt))"

definition talker_uid :: "tsq_opt \<Rightarrow> i32" where
  "talker_uid opt = word_of_int (opt_uid opt)"

record talker_env =
  t_socket_ret :: fd
  t_connect_ret :: cint
  t_write_ret :: cint
  t_read :: "bytes option"
  t_open_ret :: fd

text \<open>The command read back: at most 255 bytes into a zeroed buffer, as a C string.\<close>

definition talker_cmd :: "bytes \<Rightarrow> string" where
  "talker_cmd bs = c_string (put_bytes 0 (take (BUFFER_SIZE - 1) bs) (zeros BUFFER_SIZE))"

definition talker_setup ::
  "tsq_opt option \<Rightarrow> talker_env \<Rightarrow> tsq_glob \<Rightarrow> tsq_exit + (bytes \<times> tsq_glob)" where
  "talker_setup uopt env g =
     (case uopt of
        None \<Rightarrow> Inl (tsq_error ''[TSQ-T] User option is NULL'' g)
      | Some opt \<Rightarrow>
          let g1 = g\<lparr>glob_sockfd := t_socket_ret env\<rparr>;
              g2 = g1\<lparr>glob_ptpfd := t_open_ret env\<rparr>
          in if t_socket_ret env < 0 then Inl (tsq_error ''[TSQ-T] Could not create socket\<newline>'' g1)
             else if t_connect_ret env < 0 then Inl (tsq_error ''[TSQ-T] Connect Failed\<newline>'' g1)
             else if t_write_ret env < 0
             then Inl (tsq_error ''[TSQ-T] ERROR writing UID to socket\<newline>'' g1)
             else case t_read env of
                None \<Rightarrow> Inl (tsq_error ''[TSQ-T] ERROR reading command from socket\<newline>'' g1)
              | Some bs \<Rightarrow>
                  if talker_cmd bs \<noteq> ''start\<newline>'' then Inl (tsq_error ''[TSQ-T] Connection aborted\<newline>'' g1)
                  else if t_open_ret env < 0
                  then Inl (tsq_error (''[TSQ-T] ERROR to open ptp device '' @ device opt @ ''\<newline>'') g2)
                  else Inr (uid_msg (talker_uid opt), g2))"

section \<open>The sampling loop\<close>

type_synonym extts = "i64 \<times> u32"

definition EXTTS_SIZE :: cint where "EXTTS_SIZE = 32"

text \<open>
  The answers of one iteration: the signals before the loop head, what \<^verbatim>\<open>poll\<close> returns, for
  each read of the device its length and the event, and what the write to the socket returns.
\<close>

record poll_in =
  p_sigs :: "cint list"
  poll_ret :: cint
  p_reads :: "nat \<Rightarrow> cint \<times> extts"
  p_write_ret :: cint

record talker_st =
  t_glob :: tsq_glob
  t_seq :: i32
  t_sent :: "bytes list"

text \<open>\<^verbatim>\<open>while (ready-- > 0)\<close>: \<open>k\<close> counts the reads done; the last event read is kept.\<close>

fun read_events :: "(nat \<Rightarrow> cint \<times> extts) \<Rightarrow> nat \<Rightarrow> nat \<Rightarrow> extts \<Rightarrow> tsq_glob \<Rightarrow> tsq_exit + extts" where
  "read_events rd k 0 e g = Inr e"
| "read_events rd k (Suc ready) e g =
     (if fst (rd k) \<noteq> EXTTS_SIZE
      then Inl (tsq_error (''[TSQ-T] read returns '' @ show_int (fst (rd k)) @ '' bytes, expecting '' @
             show_int EXTTS_SIZE @ '' bytes\<newline>'') g)
      else read_events rd (Suc k) ready (snd (rd k)) g)"

definition talker_payload :: "i32 \<Rightarrow> i32 \<Rightarrow> extts \<Rightarrow> payload" where
  "talker_payload u sq e = \<lparr>uid = u, seq = sq, secs = fst e, nsecs = ucast (snd e)\<rparr>"

text \<open>\<^verbatim>\<open>bzero(send_buff, BUFFER_SIZE); memcpy(send_buff, &data, sizeof(data))\<close>.\<close>

definition send_buff :: "payload \<Rightarrow> bytes" where
  "send_buff data = put_bytes 0 (payload_bytes data) (zeros BUFFER_SIZE)"

definition talker_body :: "i32 \<Rightarrow> poll_in \<Rightarrow> talker_st \<Rightarrow> (tsq_exit, talker_st) run" where
  "talker_body u p s0 =
     (let s = s0\<lparr>t_glob := deliver (p_sigs p) (t_glob s0)\<rparr>
      in if signalled (t_glob s) then Done s
         else if poll_ret p < 0 then Exited (tsq_error ''[TSQ-T] Failed to poll\<newline>'' (t_glob s)) s
         else case read_events (p_reads p) 0 (nat (poll_ret p)) (0, 0) (t_glob s) of
            Inl x \<Rightarrow> Exited x s
          | Inr e \<Rightarrow>
              let data = talker_payload u (t_seq s) e
              in if secs data \<noteq> 0 \<and> nsecs data \<noteq> 0
                 then let s1 = s\<lparr>t_sent := t_sent s @ [send_buff data]\<rparr>
                      in if p_write_ret p < 0
                         then Exited (tsq_error ''[TSQ-T] Erorr writing to socket.\<newline>'' (t_glob s1)) s1
                         else Running (s1\<lparr>t_seq := t_seq s + 1\<rparr>)
                 else Running s)"

definition talker_loop :: "i32 \<Rightarrow> poll_in list \<Rightarrow> talker_st \<Rightarrow> (tsq_exit, talker_st) run" where
  "talker_loop u = iterate (talker_body u)"

text \<open>
  The whole function: the exit of \<^verbatim>\<open>error()\<close>, still in the loop, or the return that closes the
  socket (the PTP device stays open). The identifier message is written before the loop.
\<close>

datatype talker_end =
    T_waiting bytes talker_st
  | T_exit tsq_exit
  | T_return bytes talker_st "tsq_call list"

definition talker :: "tsq_opt option \<Rightarrow> talker_env \<Rightarrow> poll_in list \<Rightarrow> tsq_glob \<Rightarrow> talker_end" where
  "talker uopt env ps g =
     (case talker_setup uopt env (g\<lparr>glob_sockfd := 0\<rparr>) of
        Inl x \<Rightarrow> T_exit x
      | Inr (msg, g') \<Rightarrow>
          (case talker_loop (case uopt of Some opt \<Rightarrow> talker_uid opt | None \<Rightarrow> 0) ps
                  \<lparr>t_glob = g', t_seq = 0, t_sent = []\<rparr> of
             Running s \<Rightarrow> T_waiting msg s
           | Exited x s \<Rightarrow> T_exit x
           | Done s \<Rightarrow> T_return msg s [Close (glob_sockfd (t_glob s))]))"

section \<open>Specification and lemmas\<close>

text \<open>
  The event of an iteration that is worth sending: the last one read, unless its seconds or
  nanoseconds are 0; and the messages of a list of events, numbered from \<open>sq\<close>.
\<close>

definition good_event :: "poll_in \<Rightarrow> extts list" where
  "good_event p =
     (if 0 < poll_ret p
      then let e = snd (p_reads p (nat (poll_ret p) - 1))
           in if fst e \<noteq> 0 \<and> snd e \<noteq> 0 then [e] else []
      else [])"

fun talker_msgs :: "i32 \<Rightarrow> i32 \<Rightarrow> extts list \<Rightarrow> bytes list" where
  "talker_msgs u sq [] = []"
| "talker_msgs u sq (e # es) = send_buff (talker_payload u sq e) # talker_msgs u (sq + 1) es"

lemma read_events_last:
  "read_events rd k n e g = Inr e' \<Longrightarrow> e' = (if n = 0 then e else snd (rd (k + n - 1)))"
  by (induction rd k n e g rule: read_events.induct) (auto split: if_splits)

lemma talker_body_running:
  assumes "talker_body u p s = Running s'"
  shows "t_sent s' = t_sent s @ talker_msgs u (t_seq s) (good_event p)
         \<and> t_seq s' = t_seq s + of_nat (length (good_event p))"
proof -
  obtain e where e: "read_events (p_reads p) 0 (nat (poll_ret p)) (0, 0)
      (deliver (p_sigs p) (t_glob s)) = Inr e" and nn: "0 \<le> poll_ret p"
    using assms by (auto simp: talker_body_def Let_def split: if_splits sum.splits)
  have ev: "good_event p = (if fst e \<noteq> 0 \<and> snd e \<noteq> 0 then [e] else [])"
    using read_events_last [OF e] nn by (auto simp: good_event_def Let_def split: if_splits)
  show ?thesis
    using assms e ev
    by (auto simp: talker_body_def Let_def talker_payload_def ucast_u32_u64_eq_0 split: if_splits)
qed

lemma talker_msgs_append:
  "talker_msgs u sq (es @ fs) = talker_msgs u sq es @ talker_msgs u (sq + of_nat (length es)) fs"
  by (induction u sq es rule: talker_msgs.induct) (auto simp: algebra_simps)

text \<open>The iterations before the halt flag is seen set.\<close>

definition unsignalled :: "poll_in \<Rightarrow> bool" where
  "unsignalled p \<longleftrightarrow> p_sigs p = [] \<or> last (p_sigs p) = 0"

lemma talker_body_signalled:
  assumes "halt_sig (t_glob s) = 0"
  shows "talker_body u p s = Running s' \<Longrightarrow> unsignalled p \<and> halt_sig (t_glob s') = 0"
    and "talker_body u p s = Done s' \<Longrightarrow> \<not> unsignalled p \<and> t_sent s' = t_sent s"
  using assms
  by (auto simp: talker_body_def Let_def signalled_iff halt_sig_deliver unsignalled_def
      split: if_splits sum.splits)

lemma talker_loop_ends:
  assumes "halt_sig (t_glob s) = 0" and "iterate (talker_body u) ps s \<in> {Running s', Done s'}"
  shows "t_sent s' = t_sent s @ talker_msgs u (t_seq s) (concat (map good_event (takeWhile unsignalled ps)))"
  using assms
proof (induction ps arbitrary: s)
  case Nil
  then show ?case by simp
next
  case (Cons p ps)
  note sig = talker_body_signalled [OF Cons.prems(1), of u p]
  show ?case
  proof (cases "talker_body u p s")
    case (Running t)
    with Cons.prems(2) have "iterate (talker_body u) ps t \<in> {Running s', Done s'}" by simp
    moreover have t: "unsignalled p" "halt_sig (t_glob t) = 0"
      using sig(1) [OF Running] by simp_all
    ultimately show ?thesis
      using Cons.IH [of t] talker_body_running [OF Running] by (simp add: talker_msgs_append)
  next
    case (Done t)
    with Cons.prems sig(2) show ?thesis by auto
  next
    case (Exited x t)
    with Cons.prems show ?thesis by auto
  qed
qed

text \<open>Whether the loop goes on or stops, every message carries non-zero seconds and nanoseconds.\<close>

definition talker_inv :: "i32 \<Rightarrow> talker_st \<Rightarrow> bool" where
  "talker_inv u s \<longleftrightarrow>
     (\<forall>m \<in> set (t_sent s). \<exists>p. m = send_buff p \<and> uid p = u \<and> secs p \<noteq> 0 \<and> nsecs p \<noteq> 0)"

interpretation talking: inv_loop "talker_body u" "talker_inv u" for u
proof
  show "talker_inv u s \<Longrightarrow> talker_inv u (run_state (talker_body u p s))" for p s
    by (auto simp: talker_body_def talker_inv_def Let_def talker_payload_def split: sum.split)
qed

section \<open>Properties\<close>

text \<open>
  C9: until the signal that ends it, the talker writes one 256-byte message per usable event, in
  the order of the events, with consecutive sequence numbers from 0; events whose seconds or
  nanoseconds are 0, and polls without an event, neither send nor consume a number.
\<close>

theorem talker_sends:
  assumes "halt_sig g = 0" and "talker (Some opt) env ps g \<in> {T_waiting msg s, T_return msg s calls}"
  shows "t_sent s = talker_msgs (talker_uid opt) 0 (concat (map good_event (takeWhile unsignalled ps)))"
proof -
  have g': "halt_sig g' = 0" if "talker_setup (Some opt) env (g\<lparr>glob_sockfd := 0\<rparr>) = Inr (msg, g')" for g'
    using that assms(1) by (auto simp: talker_setup_def Let_def split: if_splits option.splits)
  obtain g' where "halt_sig g' = 0"
    and "iterate (talker_body (talker_uid opt)) ps \<lparr>t_glob = g', t_seq = 0, t_sent = []\<rparr> \<in> {Running s, Done s}"
    using assms(2) g' by (auto simp: talker_def talker_loop_def split: sum.splits prod.splits run.splits)
  with talker_loop_ends [of "\<lparr>t_glob = g', t_seq = 0, t_sent = []\<rparr>"] show ?thesis by simp
qed

definition ex_talker_env :: talker_env where
  "ex_talker_env = \<lparr>t_socket_ret = 4, t_connect_ret = 0, t_write_ret = 256,
     t_read = Some (bytes_of_string ''start\<newline>''), t_open_ret = 5\<rparr>"

definition ex_poll :: "extts \<Rightarrow> poll_in" where
  "ex_poll e = \<lparr>p_sigs = [], poll_ret = 1, p_reads = (\<lambda>_. (32, e)), p_write_ret = 256\<rparr>"

lemma talker_cmd_start: "talker_cmd (bytes_of_string ''start\<newline>'') = ''start\<newline>''"
  by code_simp

theorem talker_sends_witness:
  "\<exists>msg s. talker (Some tsq_defaults) ex_talker_env [ex_poll (7, 8), ex_poll (8, 0), ex_poll (9, 3)] tsq_glob_init
       = T_waiting msg s \<and> t_sent s = talker_msgs 1234 0 [(7, 8), (9, 3)]"
proof -
  let ?t = "talker (Some tsq_defaults) ex_talker_env [ex_poll (7, 8), ex_poll (8, 0), ex_poll (9, 3)] tsq_glob_init"
  have "\<exists>msg s. ?t = T_waiting msg s"
    by (simp add: talker_def talker_setup_def ex_talker_env_def talker_cmd_start talker_loop_def
        talker_body_def ex_poll_def signalled_iff tsq_glob_init_def EXTTS_SIZE_def talker_payload_def
        Let_def)
  then obtain msg s where t: "?t = T_waiting msg s" by blast
  have "t_sent s = talker_msgs (talker_uid tsq_defaults) 0
      (concat (map good_event (takeWhile unsignalled [ex_poll (7, 8), ex_poll (8, 0), ex_poll (9, 3)])))"
    by (rule talker_sends [where env = ex_talker_env and g = tsq_glob_init])
      (use t in \<open>auto simp: tsq_glob_init_def\<close>)
  with t show ?thesis
    by (auto simp: good_event_def ex_poll_def talker_uid_def tsq_defaults_def unsignalled_def)
qed

end
