(* ===== verification/Tsq_Main.thy ===== *)
theory Tsq_Main
  imports Tsq_Listener Tsq_Talker
begin

text \<open>
  \<^verbatim>\<open>main\<close> of \<^verbatim>\<open>src/tsq.c\<close> and what talker and listener do together: the exchange of identifier
  and start command, and a sample from the time-stamp event to the validated payload.

  The connection between the two is a TCP byte stream: a message written by the talker is not a
  message read by the listener. \<open>stream_reads\<close> is what successive reads of the listener return
  when the bytes are already there: up to 255 each, while the talker writes 256 at a time.
\<close>

section \<open>main\<close>

record tsq_world =
  w_inet_addr :: "string option \<Rightarrow> u32"
  w_talker :: talker_env
  w_polls :: "poll_in list"
  w_listener :: listener_env
  w_junk :: "i32 list"
  w_accepts :: "accept_in list"
  w_starts :: "cint list"
  w_rounds :: "round_in list"

datatype tsq_end =
    Ran_talker talker_end
  | Ran_listener listener_end
  | Main_error tsq_exit
  | Main_unknown
  | Main_usage
  | Main_help

definition tsq_main :: "string list \<Rightarrow> tsq_world \<Rightarrow> tsq_end" where
  "tsq_main argv w =
     (case argp_parse tsq_table tsq_parser argv tsq_defaults of
        ArgpUnknown \<Rightarrow> Main_unknown
      | ArgpUsage \<Rightarrow> Main_usage
      | ArgpHelp \<Rightarrow> Main_help
      | ArgpExit msg \<Rightarrow> Main_error (tsq_error msg tsq_glob_init)
      | ArgpOk opt \<Rightarrow>
          if mode opt = MODE_TALKER
          then Ran_talker (talker (Some opt) (w_talker w) (w_polls w) tsq_glob_init)
          else if mode opt = MODE_LISTENER
          then Ran_listener (listener (w_inet_addr w) (Some opt) (w_listener w) (w_junk w)
                 (w_accepts w) (w_starts w) (w_rounds w) tsq_glob_init)
          else Main_error (tsq_error ''Invalid mode selected\<newline>'' tsq_glob_init))"

section \<open>The byte stream\<close>

function stream_reads :: "bytes \<Rightarrow> bytes list" where
  "stream_reads bs = (if bs = [] then [] else recv_bytes bs # stream_reads (drop (BUFFER_SIZE - 1) bs))"
  by pat_completeness auto
termination
  by (relation "measure length") (auto simp: BUFFER_SIZE_def)

declare stream_reads.simps [simp del]

lemma stream_reads_complete: "concat (stream_reads bs) = bs"
  by (induction bs rule: stream_reads.induct) (subst stream_reads.simps, simp add: recv_bytes_def)

lemma length_send_buff [simp]: "length (send_buff p) = BUFFER_SIZE"
  by (simp add: send_buff_def tsq_payload.enc_length BUFFER_SIZE_def)

lemma send_buff_split: "send_buff p = payload_bytes p @ zeros 232"
  by (simp add: send_buff_def put_bytes_def zeros_def tsq_payload.enc_length BUFFER_SIZE_def)

lemma payload_recv_buff:
  "24 \<le> length bs \<Longrightarrow> payload_of_bytes (recv_buff bs) = payload_of_bytes bs"
  by (simp add: payload_of_bytes_def recv_buff_def put_bytes_def recv_bytes_def BUFFER_SIZE_def
      get_bytes_append1 get_bytes_take)

lemma payload_recv_send: "payload_of_bytes (recv_buff (send_buff p @ rest)) = p"
  by (simp add: payload_recv_buff BUFFER_SIZE_def) (simp add: send_buff_split tsq_payload.dec_enc)

lemma recv_recv [simp]: "recv_buff (recv_bytes bs) = recv_buff bs"
  by (simp add: recv_buff_def recv_bytes_def)

text \<open>A read loses only the last byte of a full buffer.\<close>

lemma recv_buff_id:
  assumes "length bs = BUFFER_SIZE" and "last bs = 0"
  shows "recv_buff bs = bs"
proof -
  have "recv_bytes bs = butlast bs"
    using assms(1) by (simp add: recv_bytes_def butlast_conv_take)
  moreover have "bs = butlast bs @ [0]"
    using assms by (metis BUFFER_SIZE_def append_butlast_last_id list.size(3) zero_neq_numeral)
  ultimately show ?thesis
    using assms(1) by (simp add: recv_buff_def put_bytes_def zeros_def BUFFER_SIZE_def)
qed

section \<open>The exchange of identifier and command\<close>

lemma show_int_chars: "c \<in> set (show_int v) \<Longrightarrow> is_digit c \<or> c = CHR ''-''"
  using show_nat_digits by (auto simp: show_int_def list_all_iff split: if_splits)

lemma length_show_nat: "n < 10 ^ k \<Longrightarrow> 0 < k \<Longrightarrow> length (show_nat n) \<le> k"
proof (induction k arbitrary: n)
  case 0
  then show ?case by simp
next
  case (Suc k)
  show ?case
  proof (cases "n < 10")
    case True
    then show ?thesis by (subst show_nat.simps) simp
  next
    case False
    then have "0 < k" using Suc.prems by (cases k) auto
    moreover have "n div 10 < 10 ^ k" using Suc.prems by auto
    ultimately show ?thesis
      using False Suc.IH [of "n div 10"] by (subst show_nat.simps) simp
  qed
qed

lemma length_show_i32: "length (show_int (sint (u :: i32))) \<le> 11"
proof -
  have "nat \<bar>sint u\<bar> < 10 ^ 10"
    using sint_ge [of u] sint_lt [of u] by auto
  then have "length (show_nat (nat \<bar>sint u\<bar>)) \<le> 10"
    by (rule length_show_nat) simp
  then show ?thesis by (auto simp: show_int_def)
qed

lemma uid_msg_string: "c_string (recv_buff (uid_msg u)) = show_int (sint u) @ ''\<newline>''"
proof -
  let ?s = "show_int (sint u) @ ''\<newline>''"
  have nz: "CHR 0x00 \<notin> set ?s"
    using show_int_chars [of "CHR 0x00" "sint u"] by (auto simp: is_digit_def)
  have len: "length ?s < 256" using length_show_i32 [of u] by simp
  have "length (uid_msg u) = BUFFER_SIZE" and "last (uid_msg u) = 0"
    using len by (simp_all add: uid_msg_def put_bytes_def BUFFER_SIZE_def zeros_def)
  then have "recv_buff (uid_msg u) = uid_msg u"
    by (rule recv_buff_id)
  then show ?thesis
    using c_string_put [OF nz len] by (simp add: uid_msg_def BUFFER_SIZE_def)
qed

lemma talker_cmd_msg: "talker_cmd start_msg = ''start\<newline>''"
proof -
  have "recv_buff start_msg = start_msg"
    by (rule recv_buff_id) (simp_all add: start_msg_def put_bytes_def BUFFER_SIZE_def zeros_def)
  then show ?thesis
    using c_string_put [of "''start\<newline>''" BUFFER_SIZE]
    by (simp add: talker_cmd_def start_msg_def recv_buff_def recv_bytes_def BUFFER_SIZE_def)
qed

section \<open>Two samples in the stream\<close>

text \<open>The second read starts with the last byte of the first message.\<close>

lemma stream_reads_full:
  "length xs = BUFFER_SIZE - 1 \<Longrightarrow> stream_reads (xs @ rest) = xs # stream_reads rest"
  by (subst stream_reads.simps) (auto simp: recv_bytes_def BUFFER_SIZE_def)

lemma stream_reads_short: "bs \<noteq> [] \<Longrightarrow> length bs \<le> BUFFER_SIZE - 1 \<Longrightarrow> stream_reads bs = [bs]"
  by (subst stream_reads.simps) (simp add: recv_bytes_def stream_reads.simps [of "[]"])

lemma send_buff_tail:
  "k \<le> 232 \<Longrightarrow> send_buff p = take (256 - k) (send_buff p) @ zeros k"
  by (simp add: send_buff_split tsq_payload.enc_length zeros_def flip: replicate_add)

lemma stream_reads_two:
  "stream_reads (send_buff p @ send_buff q) =
     [take 255 (send_buff p), 0 # take 254 (send_buff q), [0, 0]]"
proof -
  have "send_buff p @ send_buff q = take 255 (send_buff p) @ (0 # take 254 (send_buff q)) @ [0, 0]"
    using send_buff_tail [of 1 p] send_buff_tail [of 2 q] by (simp add: zeros_def replicate_2)
  then show ?thesis
    by (simp add: stream_reads_full BUFFER_SIZE_def)
      (simp add: stream_reads_full [of "0 # take 254 (send_buff q)" "[0, 0]", simplified]
        stream_reads_short BUFFER_SIZE_def)
qed

lemma shifted_uid:
  "uid (payload_of_bytes (recv_buff (0 # take 254 (send_buff q)))) = 256 * uid q"
proof -
  have "get_bytes 0 4 (0 # take 254 (send_buff q)) = 0 # le_enc 3 (unat (uid q))"
    by (simp add: get_bytes_def send_buff_split payload_bytes_def bytes_of_u32_def take_le_enc)
  then have "uid (payload_of_bytes (recv_buff (0 # take 254 (send_buff q))))
      = of_nat (256 * (unat (uid q) mod 2 ^ 24))"
    by (simp add: payload_recv_buff BUFFER_SIZE_def)
      (simp add: payload_of_bytes_def u32_of_bytes_def le_dec_enc)
  also have "\<dots> = of_nat (256 * unat (uid q))"
  proof -
    have "256 * (unat (uid q) mod 2 ^ 24) = take_bit 32 (256 * unat (uid q))"
      by (simp add: take_bit_eq_mod mult_mod_right)
    then show ?thesis
      by (simp only: word_of_nat_eq_iff) simp
  qed
  finally show ?thesis by simp
qed

lemma shifted_uid_unknown:
  assumes "999 \<le> unat u" and "unat u \<le> 9999" and "unat v \<le> 9999"
  shows "256 * u \<noteq> (v :: i32)"
proof
  assume "256 * u = v"
  moreover have "unat (256 * u) = 256 * unat u"
    using assms by (simp add: unat_word_ariths)
  ultimately show False using assms by simp
qed

section \<open>Properties\<close>

text \<open>
  C25: the command line. When \<^verbatim>\<open>main\<close> runs one of its two modes, the options were accepted and
  the port and the identifier are between 999 and 9999, the timeout between 1 and 2000
  milliseconds; the mode function runs on these options and on the initial globals.
\<close>

theorem tsq_main_runs:
  assumes "tsq_main argv w \<in> {Ran_talker t, Ran_listener l}"
  shows "\<exists>opt. argp_parse tsq_table tsq_parser argv tsq_defaults = ArgpOk opt \<and>
           999 \<le> port opt \<and> port opt \<le> 9999 \<and> 999 \<le> opt_uid opt \<and> opt_uid opt \<le> 9999 \<and>
           1 \<le> timeout opt \<and> timeout opt \<le> 2000 \<and>
           (mode opt = MODE_TALKER \<and> t = talker (Some opt) (w_talker w) (w_polls w) tsq_glob_init \<or>
            mode opt = MODE_LISTENER \<and> l = listener (w_inet_addr w) (Some opt) (w_listener w)
              (w_junk w) (w_accepts w) (w_starts w) (w_rounds w) tsq_glob_init)"
proof -
  obtain opt where opt: "argp_parse tsq_table tsq_parser argv tsq_defaults = ArgpOk opt"
    using assms by (auto simp: tsq_main_def split: argp_res.splits)
  have "tsq_opt_ok opt"
    by (rule tsq_options.parse_wf [OF tsq_defaults_ok opt])
  with opt assms show ?thesis
    by (auto simp: tsq_main_def tsq_opt_ok_def split: if_splits)
qed

definition ex_world :: tsq_world where
  "ex_world = \<lparr>w_inet_addr = (\<lambda>_. 0), w_talker = ex_talker_env, w_polls = [],
     w_listener = \<lparr>fopen_ret = Some 3, socket_ret = 4, bind_ret = 0, getsockname_ret = 0\<rparr>,
     w_junk = [0, 0], w_accepts = [], w_starts = [], w_rounds = []\<rparr>"

lemma ex_argv: "argp_parse tsq_table tsq_parser [''-vL'', ''--port'', ''7777''] tsq_defaults
    = ArgpOk (tsq_defaults\<lparr>verbose := 1, mode := MODE_LISTENER, port := 7777\<rparr>)"
proof -
  have "argp_scan tsq_table False [''-vL'', ''--port'', ''7777''] =
      [Event (Key (CHR ''v'')) None, Event (Key (CHR ''L'')) None, Event (Key (CHR ''p'')) (Some ''7777'')]"
    and "parse_bounded 999 9999 ''7777'' = Some 7777"
    by code_simp+
  then show ?thesis by (simp add: argp_parse_def tsq_parser_def)
qed

theorem tsq_main_runs_witness:
  "\<exists>l opt. tsq_main [''-vL'', ''--port'', ''7777''] ex_world = Ran_listener l \<and>
     argp_parse tsq_table tsq_parser [''-vL'', ''--port'', ''7777''] tsq_defaults = ArgpOk opt \<and>
     999 \<le> port opt \<and> port opt \<le> 9999"
proof -
  have "\<exists>l. tsq_main [''-vL'', ''--port'', ''7777''] ex_world = Ran_listener l"
    unfolding tsq_main_def ex_argv by (simp add: MODE_LISTENER_def MODE_TALKER_def)
  then obtain l where l: "tsq_main [''-vL'', ''--port'', ''7777''] ex_world = Ran_listener l" ..
  with tsq_main_runs [of "[''-vL'', ''--port'', ''7777'']" ex_world undefined l] show ?thesis
    by blast
qed

text \<open>
  C27: the help text of \<^verbatim>\<open>tsq\<close> is right. For every option whose text gives a default and limits,
  the decimal numbers the parser accepts are exactly those between the limits, and giving the
  default changes nothing.
\<close>

theorem tsq_help_text:
  assumes "e \<in> set tsq_table" and "ao_key e = Some k" and "documented (ao_doc e) = Some (d, lo, hi)"
  shows "tsq_parser k (show_int d) tsq_defaults = ArgpOk tsq_defaults \<and>
         ((\<exists>opt'. tsq_parser k (show_int v) opt = ArgpOk opt') \<longleftrightarrow> lo \<le> v \<and> v \<le> hi)"
proof -
  have "map (\<lambda>e. (ao_key e, documented (ao_doc e))) (filter (\<lambda>e. documented (ao_doc e) \<noteq> None) tsq_table) =
      [(Some (CHR ''p''), Some (5678, 999, 9999)), (Some (CHR ''u''), Some (1234, 999, 9999)),
       (Some (CHR ''t''), Some (1100, 1, 2000))]"
    by code_simp
  from documented_cases [OF this assms] show ?thesis
    unfolding set_simps
    by (elim insertE emptyE; clarify; simp add: tsq_parser_def tsq_defaults_def parse_bounded_show_int LONG_MIN_def LONG_MAX_def)
qed

theorem tsq_help_text_witness:
  "tsq_parser (CHR ''t'') ''1100'' tsq_defaults = ArgpOk tsq_defaults \<and>
   \<not> (\<exists>opt'. tsq_parser (CHR ''t'') ''2001'' tsq_defaults = ArgpOk opt')"
proof -
  have "tsq_table ! 8 \<in> set tsq_table" and "ao_key (tsq_table ! 8) = Some (CHR ''t'')"
    and "documented (ao_doc (tsq_table ! 8)) = Some (1100, 1, 2000)"
    and "show_int 1100 = ''1100''" and "show_int 2001 = ''2001''"
    by code_simp+
  then show ?thesis
    using tsq_help_text [of "tsq_table ! 8" "CHR ''t''" 1100 1 2000 2001 tsq_defaults] by simp
qed

text \<open>
  The port numbers accepted on the command line are exactly the decimal numbers from 999 to
  9999, with optional leading white space and sign, and nothing after the digits.
\<close>

theorem tsq_port_grammar:
  "tsq_parser (CHR ''p'') arg opt = ArgpOk opt' \<longleftrightarrow>
     (\<exists>v. signed_digits arg v \<and> 999 \<le> v \<and> v \<le> 9999 \<and> opt' = opt\<lparr>port := v\<rparr>)"
proof -
  have "parse_bounded 999 9999 arg = Some v \<longleftrightarrow> 999 \<le> v \<and> v \<le> 9999 \<and> signed_digits arg v" for v
    by (subst parse_bounded_iff) (auto simp: LONG_MIN_def LONG_MAX_def)
  moreover have "tsq_parser (CHR ''p'') arg opt = ArgpOk opt' \<longleftrightarrow>
      (\<exists>v. parse_bounded 999 9999 arg = Some v \<and> opt' = opt\<lparr>port := v\<rparr>)"
    by (auto simp: tsq_parser_def split: option.splits)
  ultimately show ?thesis by auto
qed

text \<open>
  C21: the handshake. The identifier a talker sends on its connection is the identifier the
  listener records for it, and the start command of the listener is the command the talker
  accepts: with it the set-up of the talker succeeds once the device opens.
\<close>

theorem handshake:
  assumes "accepted s < CLIENT_COUNT" and "halt_sig (l_glob s) = 0" and "length (cli_ids s) = CLIENT_COUNT"
    and "0 \<le> c" and "0 \<le> t_socket_ret env" and "0 \<le> t_connect_ret env" and "0 \<le> t_write_ret env"
    and "0 \<le> t_open_ret env" and "t_read env = Some start_msg"
  shows "\<exists>msg g' s'. talker_setup (Some opt) env g = Inr (msg, g') \<and>
           accept_body \<lparr>a_sigs = [], accept_ret = c, a_read = Some msg\<rparr> s = Running s' \<and>
           cli_ids s' = (cli_ids s)[accepted s := talker_uid opt] \<and>
           cli_conns s' = (cli_conns s)[accepted s := c] \<and> accepted s' = accepted s + 1"
proof -
  have "atoi (c_string (recv_buff (uid_msg u))) = u" for u
    using atoi_show_int [of "''\<newline>''" u] by (simp add: uid_msg_string is_digit_def)
  with assms show ?thesis
    by (simp add: talker_setup_def accept_body_def signalled_iff talker_cmd_msg Let_def)
qed

theorem handshake_witness:
  "\<exists>msg g' s'. talker_setup (Some tsq_defaults) (ex_talker_env\<lparr>t_read := Some start_msg\<rparr>) tsq_glob_init = Inr (msg, g') \<and>
     accept_body \<lparr>a_sigs = [], accept_ret = 5, a_read = Some msg\<rparr> (listener_init [0, 0] tsq_glob_init) = Running s' \<and>
     cli_ids s' = [1234, 0] \<and> cli_conns s' = [5, 0] \<and> accepted s' = 1"
  using handshake [of "listener_init [0, 0] tsq_glob_init" 5 "ex_talker_env\<lparr>t_read := Some start_msg\<rparr>"
      tsq_defaults tsq_glob_init]
  by (simp add: listener_init_def CLIENT_COUNT_def tsq_glob_init_def ex_talker_env_def talker_uid_def
      tsq_defaults_def replicate_2)

text \<open>
  A sample from the device to the validated payload. The message the talker writes for a
  usable event, read by the listener, is stored as exactly that identifier, sequence number and
  time, and marked valid, provided the talker's identifier is one the listener knows and the
  slot is not the one whose sample is held.
\<close>

theorem sample_delivered:
  assumes "talker_body u p ts = Running ts'" and "good_event p = [e]"
    and "u \<noteq> 0" and "u \<in> set (take CLIENT_COUNT (cli_ids s))"
    and "i < length (cli_data s)" and "i < length (pl_valid_flag s)"
    and "cli_conns s ! i \<in> set readfds" and "halt_sig (l_glob s) = 0"
    and "\<not> (skip_slot s \<and> keep_data_slot s = i)"
  shows "\<exists>m s'. t_sent ts' = t_sent ts @ [m] \<and>
           listener_client readfds i \<lparr>c_sigs = [], c_read = Some m\<rparr> s = Running s' \<and>
           cli_data s' ! i = \<lparr>uid = u, seq = t_seq ts, secs = fst e, nsecs = ucast (snd e)\<rparr> \<and>
           pl_valid_flag s' ! i"
proof -
  let ?m = "send_buff (talker_payload u (t_seq ts) e)"
  have sent: "t_sent ts' = t_sent ts @ [?m]"
    using talker_body_running [OF assms(1)] assms(2) by simp
  have "payload_of_bytes (recv_buff ?m) = talker_payload u (t_seq ts) e"
    using payload_recv_send [of _ "[]"] by simp
  moreover have "fst e \<noteq> 0" "snd e \<noteq> 0"
    using assms(2) by (auto simp: good_event_def Let_def split: if_splits)
  ultimately show ?thesis
    using assms sent
    by (auto simp: listener_client_def Let_def signalled_iff recv_bytes_def validate_payload_iff
        talker_payload_def ucast_u32_u64_eq_0 BUFFER_SIZE_def)
qed

theorem sample_delivered_witness:
  "\<exists>ts' m s'. talker_body 1234 (ex_poll (7, 8)) \<lparr>t_glob = tsq_glob_init, t_seq = 3, t_sent = []\<rparr> = Running ts' \<and>
     t_sent ts' = [m] \<and>
     listener_client [5, 6] 0 \<lparr>c_sigs = [], c_read = Some m\<rparr> ex_state = Running s' \<and>
     cli_data s' ! 0 = \<lparr>uid = 1234, seq = 3, secs = 7, nsecs = 8\<rparr> \<and> pl_valid_flag s' ! 0"
proof -
  let ?ts = "\<lparr>t_glob = tsq_glob_init, t_seq = 3, t_sent = []\<rparr>"
  have "\<exists>ts'. talker_body 1234 (ex_poll (7, 8)) ?ts = Running ts'"
    by (simp add: talker_body_def ex_poll_def Let_def signalled_iff tsq_glob_init_def EXTTS_SIZE_def
        talker_payload_def)
  then obtain ts' where run: "talker_body 1234 (ex_poll (7, 8)) ?ts = Running ts'" ..
  from sample_delivered [OF run, of "(7, 8)" ex_state 0 "[5, 6]"] run show ?thesis
    by (simp add: good_event_def ex_poll_def ex_state_def listener_init_def CLIENT_COUNT_def
        tsq_glob_init_def)
qed

text \<open>
  C29: two messages that wait in the stream when the listener reads are not two samples. The
  first read takes 255 of the 256 bytes of the first message and yields its payload; the second
  read starts with the byte left over, so the payload it yields is shifted by one byte, its
  identifier is not a known one, and the second sample is lost.
\<close>

theorem second_pending_sample_lost:
  assumes "stream_reads (send_buff p @ send_buff q) = m0 # m1 # ms"
    and "999 \<le> unat (uid q)" and "unat (uid q) \<le> 9999" and "\<forall>u \<in> set ids. unat u \<le> 9999"
  shows "payload_of_bytes (recv_buff m0) = p \<and>
         \<not> validate_payload (payload_of_bytes (recv_buff m1)) ids CLIENT_COUNT"
proof -
  have m: "m0 = take 255 (send_buff p)" "m1 = 0 # take 254 (send_buff q)"
    using assms(1) by (simp_all add: stream_reads_two)
  have "256 * uid q \<notin> set ids"
    using shifted_uid_unknown [OF assms(2,3)] assms(4) by blast
  then have "\<not> validate_payload (payload_of_bytes (recv_buff m1)) ids CLIENT_COUNT"
    by (auto simp: validate_payload_iff m shifted_uid dest: in_set_takeD)
  moreover have "recv_buff m0 = recv_buff (send_buff p)"
    by (simp add: m recv_buff_def recv_bytes_def BUFFER_SIZE_def)
  ultimately show ?thesis
    using payload_recv_send [of p "[]"] by simp
qed

theorem second_pending_sample_lost_witness:
  "\<exists>m0 m1 ms. stream_reads (send_buff (ex_payload 1234 10 20) @ send_buff (ex_payload 1234 11 21)) = m0 # m1 # ms \<and>
     payload_of_bytes (recv_buff m0) = ex_payload 1234 10 20 \<and>
     \<not> validate_payload (payload_of_bytes (recv_buff m1)) [1234, 1235] CLIENT_COUNT"
  using second_pending_sample_lost [OF stream_reads_two, of "ex_payload 1234 11 21" "[1234, 1235]"
      "ex_payload 1234 10 20"]
  by (simp add: stream_reads_two) (simp add: ex_payload_def)

end
