(* ===== verification/Tsq_System.thy ===== *)
theory Tsq_System
  imports Tsq_Main "HOL-Library.Sublist"
begin

text \<open>
  Two talkers, the two connections and the listener of \<^verbatim>\<open>src/tsq.c\<close> together, in any interleaving. A
  connection is the list of bytes written and not yet read. A talker adds messages of 256 bytes; the
  listener reads up to 255 bytes of what is there, so a message that waits behind another is read
  out of line with its start. What is shown is that such reads never put a wrong sample into
  the output.
\<close>

section \<open>Reads that do not start at a message\<close>

lemma le_dec_append: "le_dec (xs @ ys) = le_dec xs + 256 ^ length xs * le_dec ys"
  by (induction xs) (simp_all add: algebra_simps)

lemma drop_le_enc: "drop k (le_enc n v) = le_enc (n - k) (v div 256 ^ k)"
proof (induction n arbitrary: k v)
  case 0
  then show ?case by simp
next
  case (Suc n)
  then show ?case by (cases k) (simp_all add: div_mult2_eq)
qed

lemma le_enc_zeros: "v < 256 ^ k \<Longrightarrow> drop k (le_enc n v) = zeros (n - k)"
proof -
  have "le_enc m 0 = zeros m" for m
    by (induction m) (simp_all add: zeros_def)
  then show "v < 256 ^ k \<Longrightarrow> drop k (le_enc n v) = zeros (n - k)"
    by (simp add: drop_le_enc)
qed

text \<open>The 256 bytes of a message: identifier, number, seconds, nanoseconds and zeros.\<close>

lemma send_buff_bytes:
  "send_buff p = le_enc 4 (unat (uid p)) @ le_enc 4 (unat (seq p)) @ le_enc 8 (unat (secs p)) @
     le_enc 8 (unat (nsecs p)) @ zeros 232"
  by (simp add: send_buff_split payload_bytes_def bytes_of_u32_def bytes_of_u64_def)

lemma send_buff_zeros:
  assumes "unat (nsecs p) < 2 ^ 32" and "20 \<le> k"
  shows "drop k (send_buff p) = zeros (256 - k)"
proof -
  have "drop 20 (send_buff p) = zeros 236"
    using le_enc_zeros [of "unat (nsecs p)" 4 8] assms(1)
    by (simp add: send_buff_bytes zeros_def flip: replicate_add)
  then have "drop (k - 20) (drop 20 (send_buff p)) = zeros (256 - k)"
    using assms(2) by (simp add: zeros_def)
  then show ?thesis using assms(2) by simp
qed

text \<open>The identifier and the nanoseconds the listener takes from what is in the stream.\<close>

lemma recv_uid:
  assumes "4 \<le> length bs"
  shows "uid (payload_of_bytes (recv_buff bs)) = of_nat (le_dec (take 4 bs))"
  using assms
  by (simp add: payload_of_bytes_def u32_of_bytes_def recv_buff_def recv_bytes_def put_bytes_def get_bytes_def BUFFER_SIZE_def)

lemma recv_nsecs:
  assumes "24 \<le> length bs"
  shows "nsecs (payload_of_bytes (recv_buff bs)) = of_nat (le_dec (take 8 (drop 16 bs)))"
  using assms by (simp add: payload_recv_buff) (simp add: payload_of_bytes_def u64_of_bytes_def get_bytes_def)

lemma recv_zeros: "payload_of_bytes (recv_buff (zeros n)) = zero_payload"
proof -
  have "recv_buff (zeros n) = zeros BUFFER_SIZE"
    by (simp add: recv_buff_def recv_bytes_def put_bytes_def zeros_def BUFFER_SIZE_def flip: replicate_add)
  then show ?thesis by (simp add: payload_of_zeros)
qed

definition known_id :: "i32 \<Rightarrow> bool" where
  "known_id u \<longleftrightarrow> 999 \<le> unat u \<and> unat u \<le> 9999"

lemma not_known:
  assumes "n < 2 ^ 32 \<and> (n < 999 \<or> 9999 < n)"
  shows "\<not> known_id (of_nat n)"
  using assms by (auto simp: known_id_def unat_of_nat)

lemma unknown_invalid:
  assumes "\<forall>v \<in> set ids. known_id v" and "\<not> known_id (uid pl) \<or> nsecs pl = 0"
  shows "\<not> validate_payload pl ids n"
  using assms by (auto simp: validate_payload_iff dest: in_set_takeD)

text \<open>In the middle of a message the place of the nanoseconds holds zeros.\<close>

lemma middle_nsecs:
  assumes "unat (nsecs d) < 2 ^ 32" and "4 \<le> k" and "k \<le> 232"
  shows "nsecs (payload_of_bytes (recv_buff (drop k (send_buff d) @ rest))) = 0"
proof -
  have "take 8 (drop 16 (drop k (send_buff d) @ rest)) = zeros 8"
    using send_buff_zeros [OF assms(1), of "16 + k"] assms(2,3)
    by (simp add: BUFFER_SIZE_def add.commute) (simp add: zeros_def)
  then show ?thesis
    using assms(3) by (subst recv_nsecs) (simp_all add: BUFFER_SIZE_def zeros_def)
qed

text \<open>Just before a message the identifier is shifted out of range.\<close>

lemma shifted_uid_out:
  assumes "known_id (uid p)" and "0 < r"
  shows "\<not> known_id (uid (payload_of_bytes (recv_buff (zeros r @ send_buff p @ rest))))"
proof -
  let ?u = "unat (uid p)"
  have u: "999 \<le> ?u" "?u \<le> 9999" using assms(1) by (simp_all add: known_id_def)
  have len: "4 \<le> length (zeros r @ send_buff p @ rest)" by (simp add: BUFFER_SIZE_def)
  have "take 4 (zeros r @ send_buff p @ rest) = zeros (min 4 r) @ le_enc (4 - r) ?u"
    by (simp add: send_buff_bytes take_le_enc min_def) (simp add: zeros_def min_def)
  then have dec: "le_dec (take 4 (zeros r @ send_buff p @ rest)) = 256 ^ min 4 r * (?u mod 256 ^ (4 - r))"
    by (simp add: le_dec_append le_dec_enc) (simp add: zeros_def)
  consider "r = 1" | "r = 2" | "r = 3" | "4 \<le> r" using assms(2) by linarith
  then have "256 ^ min 4 r * (?u mod 256 ^ (4 - r)) < 2 ^ 32 \<and>
      (256 ^ min 4 r * (?u mod 256 ^ (4 - r)) < 999 \<or> 9999 < 256 ^ min 4 r * (?u mod 256 ^ (4 - r)))"
  proof cases
    case 3
    have "?u mod 256 < 256" by simp
    then show ?thesis unfolding 3 by (cases "?u mod 256 = 0") simp_all
  qed (use u in simp_all)
  then show ?thesis
    unfolding recv_uid [OF len] dec by (rule not_known)
qed

text \<open>Just inside a message the bytes of the number stand where the identifier is looked for.\<close>

lemma inner_uid_out:
  assumes "known_id (uid d)" and "1 \<le> k" and "k \<le> 3" and "k = 3 \<Longrightarrow> 252 \<le> unat (seq d) \<and> unat (seq d) < 2 ^ 24"
  shows "\<not> known_id (uid (payload_of_bytes (recv_buff (drop k (send_buff d) @ rest))))"
proof -
  let ?u = "unat (uid d)" and ?q = "unat (seq d)"
  have u: "999 \<le> ?u" "?u \<le> 9999" using assms(1) by (simp_all add: known_id_def)
  have len: "4 \<le> length (drop k (send_buff d) @ rest)" using assms(3) by (simp add: BUFFER_SIZE_def)
  have "take 4 (drop k (send_buff d) @ rest) = le_enc (4 - k) (?u div 256 ^ k) @ le_enc k ?q"
    using assms(2,3) by (simp add: send_buff_bytes drop_le_enc take_le_enc min_def)
  then have dec: "le_dec (take 4 (drop k (send_buff d) @ rest)) =
      (?u div 256 ^ k) mod 256 ^ (4 - k) + 256 ^ (4 - k) * (?q mod 256 ^ k)"
    by (simp add: le_dec_append le_dec_enc)
  let ?n = "(?u div 256 ^ k) mod 256 ^ (4 - k) + 256 ^ (4 - k) * (?q mod 256 ^ k)"
  consider "k = 1" | "k = 2" | "k = 3" using assms(2,3) by linarith
  then have "?n < 2 ^ 32 \<and> (?n < 999 \<or> 9999 < ?n)"
  proof cases
    case 1
    have "(?u div 256) mod 16777216 = ?u div 256" and "?u div 256 < 40" and "?q mod 256 < 256" using u by simp_all
    then show ?thesis unfolding 1 by (cases "?q mod 256 = 0") simp_all
  next
    case 2
    have "?u div 65536 = 0" and "?q mod 65536 < 65536" using u by simp_all
    then show ?thesis unfolding 2 by (cases "?q mod 65536 = 0") simp_all
  next
    case 3
    have "?u div 16777216 = 0" and "?q mod 16777216 = ?q" using u assms(4) 3 by simp_all
    then show ?thesis unfolding 3 using assms(4) 3 by simp
  qed
  then show ?thesis
    unfolding recv_uid [OF len] dec by (rule not_known)
qed

text \<open>Together: wherever inside a message a read starts, what it yields is refused.\<close>

lemma misaligned_invalid:
  assumes "unat (nsecs d) < 2 ^ 32" and "known_id (uid d)" and "1 \<le> k" and "k \<le> 255"
    and "k = 3 \<Longrightarrow> 252 \<le> unat (seq d) \<and> unat (seq d) < 2 ^ 24"
    and "rest = [] \<or> (\<exists>p rest'. rest = send_buff p @ rest' \<and> known_id (uid p))" and "\<forall>v \<in> set ids. known_id v"
  shows "\<not> validate_payload (payload_of_bytes (recv_buff (drop k (send_buff d) @ rest))) ids n"
proof -
  consider "k \<le> 3" | "4 \<le> k" "k \<le> 232" | "233 \<le> k" by linarith
  then show ?thesis
  proof cases
    case 1
    then show ?thesis
      using unknown_invalid [OF assms(7)] inner_uid_out [OF assms(2,3) _ assms(5)] by blast
  next
    case 2
    then show ?thesis
      using unknown_invalid [OF assms(7)] middle_nsecs [OF assms(1)] by blast
  next
    case 3
    then have z: "drop k (send_buff d) = zeros (256 - k)"
      using send_buff_zeros [OF assms(1)] by simp
    have "\<not> known_id (uid zero_payload)" by (simp add: known_id_def zero_payload_def)
    then have "\<not> known_id (uid (payload_of_bytes (recv_buff (zeros (256 - k) @ rest))))"
      using assms(4,6) shifted_uid_out [of _ "256 - k"] recv_zeros by fastforce
    then show ?thesis
      unfolding z using unknown_invalid [OF assms(7)] by blast
  qed
qed

section \<open>One connection\<close>

text \<open>The samples of a talker: its own identifier, numbered from 0, a time that is not 0.\<close>

definition sent_ok :: "i32 \<Rightarrow> payload list \<Rightarrow> bool" where
  "sent_ok u ms \<longleftrightarrow>
     known_id u \<and> (\<forall>i < length ms. uid (ms ! i) = u \<and> seq (ms ! i) = of_nat i \<and> unat (nsecs (ms ! i)) < 2 ^ 32)"

text \<open>
  Some messages have been reached by a read, the others wait as a whole; of the last message
  reached, the bytes from \<open>k\<close> on are still there. Each further byte out of line costs one message, so
  \<open>k\<close> is only small after many messages. The samples in use, in order, are among those reached.
\<close>

definition chan_inv :: "payload list \<Rightarrow> bytes \<Rightarrow> payload list \<Rightarrow> bool" where
  "chan_inv ms str used \<longleftrightarrow>
     (\<exists>old new k. ms = old @ new \<and> 1 \<le> k \<and> k \<le> 256 \<and> 256 \<le> length old + k \<and>
        str = (if old = [] then [] else drop k (send_buff (last old))) @ concat (map send_buff new) \<and>
        subseq used old)"

lemma chan_inv_mono: "chan_inv ms str used \<Longrightarrow> subseq used' used \<Longrightarrow> chan_inv ms str used'"
  unfolding chan_inv_def using subseq_order.trans by blast

lemma chan_inv_write:
  assumes "chan_inv ms str used"
  shows "chan_inv (ms @ more_ms) (str @ concat (map send_buff more_ms)) used"
proof -
  obtain old new k where "ms = old @ new" "1 \<le> k" "k \<le> 256" "256 \<le> length old + k" "subseq used old"
    "str = (if old = [] then [] else drop k (send_buff (last old))) @ concat (map send_buff new)"
    using assms unfolding chan_inv_def by blast
  then show ?thesis
    unfolding chan_inv_def by (intro exI [of _ old] exI [of _ "new @ more_ms"] exI [of _ k]) simp
qed

lemma chan_inv_sent: "chan_inv ms str used \<Longrightarrow> subseq used ms"
  unfolding chan_inv_def by (auto intro: list_emb_append2)

lemma last_sent:
  assumes "sent_ok u (old @ new)" and "old \<noteq> []" and "length old \<le> 2 ^ 24"
  shows "uid (last old) = u" and "unat (nsecs (last old)) < 2 ^ 32" and "unat (seq (last old)) = length old - 1"
proof -
  have "last old = (old @ new) ! (length old - 1)" and "length old - 1 < length (old @ new)"
    using assms(2) by (cases old; simp add: last_conv_nth nth_append)+
  with assms show "uid (last old) = u" and "unat (nsecs (last old)) < 2 ^ 32"
    and "unat (seq (last old)) = length old - 1"
    unfolding sent_ok_def by (auto simp: unat_of_nat)
qed

text \<open>A read that starts inside a message reaches at most one more message and yields nothing.\<close>

lemma read_misaligned:
  assumes "sent_ok u ms" and "length ms \<le> 2 ^ 24" and "\<forall>v \<in> set ids. known_id v"
    and "ms = old @ new" and "old \<noteq> []" and "1 \<le> k" and "k \<le> 255" and "256 \<le> length old + k"
    and "str = drop k (send_buff (last old)) @ concat (map send_buff new)" and "subseq used old"
  shows "\<not> validate_payload (payload_of_bytes (recv_buff str)) ids CLIENT_COUNT"
    and "chan_inv ms (drop (BUFFER_SIZE - 1) str) used"
proof -
  have len: "length old \<le> 2 ^ 24" using assms(2,4) by simp
  note last = last_sent [OF assms(1) [unfolded assms(4)] assms(5) len]
  have u: "known_id u" using assms(1) by (simp add: sent_ok_def)
  have first: "known_id (uid p)" if "new = p # ps" for p ps
    using assms(1) u that unfolding assms(4) sent_ok_def by (auto dest: spec [of _ "length old"])
  have seq: "252 \<le> unat (seq (last old)) \<and> unat (seq (last old)) < 2 ^ 24" if "k = 3"
    using assms(8) that len last(3) by linarith
  have "concat (map send_buff new) = [] \<or>
      (\<exists>p rest'. concat (map send_buff new) = send_buff p @ rest' \<and> known_id (uid p))"
    using first by (cases new) auto
  then show "\<not> validate_payload (payload_of_bytes (recv_buff str)) ids CLIENT_COUNT"
    unfolding assms(9) using misaligned_invalid [OF last(2) _ assms(6,7) seq _ assms(3)] last(1) u by blast
  show "chan_inv ms (drop (BUFFER_SIZE - 1) str) used"
  proof (cases "new = [] \<or> k = 1")
    case True
    then have "drop (BUFFER_SIZE - 1) str = concat (map send_buff new)"
      using assms(6,9) by (auto simp: BUFFER_SIZE_def)
    then show ?thesis
      unfolding chan_inv_def using assms(4,10)
      by (intro exI [of _ old] exI [of _ new] exI [of _ 256]) (simp add: BUFFER_SIZE_def)
  next
    case False
    then obtain p ps where new: "new = p # ps" by (cases new) auto
    have "drop (BUFFER_SIZE - 1) str = drop (k - 1) (send_buff p) @ concat (map send_buff ps)"
      using assms(6,7,9) by (simp add: new BUFFER_SIZE_def)
    then show ?thesis
      unfolding chan_inv_def using assms(4,8,10) False assms(6,7)
      by (intro exI [of _ "old @ [p]"] exI [of _ ps] exI [of _ "k - 1"]) (auto simp: new intro: list_emb_append2)
  qed
qed

text \<open>A read that starts at a message yields that message.\<close>

lemma read_aligned:
  assumes "ms = old @ p # new" and "str = send_buff p @ concat (map send_buff new)" and "subseq used old"
  shows "payload_of_bytes (recv_buff str) = p" and "chan_inv ms (drop (BUFFER_SIZE - 1) str) (used @ [p])"
proof -
  show "payload_of_bytes (recv_buff str) = p"
    unfolding assms(2) by (rule payload_recv_send)
  show "chan_inv ms (drop (BUFFER_SIZE - 1) str) (used @ [p])"
    unfolding chan_inv_def using assms
    by (intro exI [of _ "old @ [p]"] exI [of _ new] exI [of _ 255]) (simp add: BUFFER_SIZE_def)
qed

lemma chan_inv_read:
  assumes "sent_ok u ms" and "length ms \<le> 2 ^ 24" and "\<forall>v \<in> set ids. known_id v" and "chan_inv ms str used"
  shows "chan_inv ms (drop (BUFFER_SIZE - 1) str)
    (if recv_bytes str \<noteq> [] \<and> validate_payload (payload_of_bytes (recv_buff str)) ids CLIENT_COUNT
     then used @ [payload_of_bytes (recv_buff str)] else used)"
proof -
  obtain old new k where c: "ms = old @ new" "1 \<le> k" "k \<le> 256" "256 \<le> length old + k" "subseq used old"
    "str = (if old = [] then [] else drop k (send_buff (last old))) @ concat (map send_buff new)"
    using assms(4) unfolding chan_inv_def by blast
  show ?thesis
  proof (cases "old \<noteq> [] \<and> k \<le> 255")
    case True
    then show ?thesis
      using read_misaligned [OF assms(1-3) c(1) _ c(2) _ c(4) _ c(5), of str] c(6) by simp
  next
    case False
    then have "k = 256" using c(3,4) by (cases old) auto
    then have str: "str = concat (map send_buff new)" using c(6) by (simp add: BUFFER_SIZE_def)
    show ?thesis
    proof (cases new)
      case Nil
      then show ?thesis using assms(4) str by (simp add: recv_bytes_def)
    next
      case (Cons p ps)
      then show ?thesis
        using read_aligned [of ms old p ps str used] c(1,5) str
        by (auto intro: chan_inv_mono)
    qed
  qed
qed

section \<open>The samples the listener uses\<close>

text \<open>Of talker \<open>i\<close>: those in the pairs found so far, then the one that waits or is held.\<close>

definition current :: "nat \<Rightarrow> abs_listener \<Rightarrow> payload list" where
  "current i a =
     (case pend a i of
        Some p \<Rightarrow> [p]
      | None \<Rightarrow> (case held a of Some (j, q) \<Rightarrow> if j = i then [q] else [] | None \<Rightarrow> []))"

definition used :: "nat \<Rightarrow> abs_listener \<Rightarrow> payload list" where
  "used i a = map (if i = 0 then fst else snd) (pairs a) @ current i a"

text \<open>What waits at the place of the held sample is the held sample.\<close>

definition held_ok :: "abs_listener \<Rightarrow> bool" where
  "held_ok a \<longleftrightarrow> (\<forall>i q p. held a = Some (i, q) \<and> pend a i = Some p \<longrightarrow> p = q)"

lemma abs_client_other: "j \<noteq> i \<Longrightarrow> used j (abs_client ids i rd a) = used j a"
  by (auto simp: abs_client_def abs_sample_def used_def current_def Let_def split: option.splits)

lemma abs_client_held: "held_ok a \<Longrightarrow> held_ok (abs_client ids i rd a)"
  by (auto simp: held_ok_def abs_client_def abs_sample_def Let_def split: option.splits)

lemma subseq_replace: "subseq (xs @ [y]) (xs @ [x, y])"
  using list_emb_append_mono [of "(=)" xs xs "[y]" "[x, y]"] by simp

text \<open>A read puts at most its own sample into use, after the earlier ones.\<close>

lemma abs_client_used:
  assumes "held_ok a"
  shows "subseq (used i (abs_client ids i (Some bs) a))
    (if recv_bytes bs \<noteq> [] \<and> validate_payload (payload_of_bytes (recv_buff bs)) ids CLIENT_COUNT
     then used i a @ [payload_of_bytes (recv_buff bs)] else used i a)"
  using assms
  by (auto simp: held_ok_def abs_client_def abs_sample_def used_def current_def Let_def
      intro: subseq_replace split: option.splits)

lemma abs_compare_used: "subseq (used 0 (abs_compare a)) (used 0 a)" "subseq (used 1 (abs_compare a)) (used 1 a)"
  by (auto simp: abs_compare_def used_def current_def split: option.splits)

lemma abs_compare_held: "held_ok a \<Longrightarrow> held_ok (abs_compare a)"
  by (auto simp: abs_compare_def held_ok_def split: option.splits)

section \<open>The system\<close>

record tsq_sys =
  q_talk0 :: talker_st
  q_talk1 :: talker_st
  q_str0 :: bytes
  q_str1 :: bytes
  q_lis :: listener_st

text \<open>What an iteration of a talker adds to its connection.\<close>

definition written :: "talker_st \<Rightarrow> talker_st \<Rightarrow> bytes" where
  "written t t' = concat (drop (length (t_sent t)) (t_sent t'))"

text \<open>
  What the listener reads from a connection in a round, if \<^verbatim>\<open>select\<close> reports it: the bytes that are
  there, at most 255. A message is in the connection as a whole or not at all.
\<close>

definition chan_read :: "bool \<Rightarrow> bytes \<Rightarrow> bytes option" where
  "chan_read ready str = (if ready then Some (recv_bytes str) else None)"

definition chan_rest :: "bool \<Rightarrow> bytes \<Rightarrow> bytes" where
  "chan_rest ready str = (if ready then drop (BUFFER_SIZE - 1) str else str)"

inductive tsq_step :: "i32 \<Rightarrow> i32 \<Rightarrow> tsq_sys \<Rightarrow> tsq_sys \<Rightarrow> bool" for u0 u1 where
  talk0: "talker_body u0 p (q_talk0 s) = Running t \<Longrightarrow>
    tsq_step u0 u1 s (s\<lparr>q_talk0 := t, q_str0 := q_str0 s @ written (q_talk0 s) t\<rparr>)"
| talk1: "talker_body u1 p (q_talk1 s) = Running t \<Longrightarrow>
    tsq_step u0 u1 s (s\<lparr>q_talk1 := t, q_str1 := q_str1 s @ written (q_talk1 s) t\<rparr>)"
| sample: "listener_round r (q_lis s) = Running l \<Longrightarrow>
    arrivals r (q_lis s) = (chan_read b0 (q_str0 s), chan_read b1 (q_str1 s)) \<Longrightarrow>
    tsq_step u0 u1 s (s\<lparr>q_lis := l, q_str0 := chan_rest b0 (q_str0 s), q_str1 := chan_rest b1 (q_str1 s)\<rparr>)"

definition tsq_start :: "i32 \<Rightarrow> i32 \<Rightarrow> tsq_sys \<Rightarrow> bool" where
  "tsq_start u0 u1 s \<longleftrightarrow>
     q_str0 s = [] \<and> q_str1 s = [] \<and> t_sent (q_talk0 s) = [] \<and> t_sent (q_talk1 s) = [] \<and>
     t_seq (q_talk0 s) = 0 \<and> t_seq (q_talk1 s) = 0 \<and> cli_ids (q_lis s) = [u0, u1] \<and>
     listener_fresh (q_lis s) \<and> cli_data (q_lis s) = replicate CLIENT_COUNT zero_payload"

section \<open>The invariant of the system\<close>

definition talk_inv :: "i32 \<Rightarrow> talker_st \<Rightarrow> payload list \<Rightarrow> bool" where
  "talk_inv u t ms \<longleftrightarrow> t_sent t = map send_buff ms \<and> t_seq t = of_nat (length ms) \<and> sent_ok u ms"

definition side_inv :: "i32 \<Rightarrow> talker_st \<Rightarrow> bytes \<Rightarrow> payload list \<Rightarrow> bool" where
  "side_inv u t str us \<longleftrightarrow> (\<exists>ms. talk_inv u t ms \<and> (length ms \<le> 2 ^ 24 \<longrightarrow> chan_inv ms str us))"

definition sys_inv :: "i32 \<Rightarrow> i32 \<Rightarrow> tsq_sys \<Rightarrow> bool" where
  "sys_inv u0 u1 s \<longleftrightarrow>
     cli_ids (q_lis s) = [u0, u1] \<and> known_id u0 \<and> known_id u1 \<and>
     (\<exists>a. listener_rel (q_lis s) a \<and> held_ok a \<and> side_inv u0 (q_talk0 s) (q_str0 s) (used 0 a) \<and>
        side_inv u1 (q_talk1 s) (q_str1 s) (used 1 a))"

lemma side_inv_mono: "side_inv u t str us \<Longrightarrow> subseq us' us \<Longrightarrow> side_inv u t str us'"
  unfolding side_inv_def using chan_inv_mono by blast

lemma sent_ok_snoc:
  assumes "sent_ok u ms"
  shows "sent_ok u (ms @ [talker_payload u (of_nat (length ms)) e])"
proof -
  have "unat (ucast (snd e) :: u64) < 2 ^ 32"
    using unat_bounds(3) [of "snd e"] by (simp add: unat_ucast_u32_u64)
  with assms show ?thesis
    by (simp add: sent_ok_def nth_append talker_payload_def less_Suc_eq)
qed

lemma side_talk:
  assumes "talker_body u p t = Running t'" and "side_inv u t str us"
  shows "side_inv u t' (str @ written t t') us"
proof -
  obtain ms where ms: "talk_inv u t ms" "length ms \<le> 2 ^ 24 \<longrightarrow> chan_inv ms str us"
    using assms(2) by (auto simp: side_inv_def)
  define new where "new = map (talker_payload u (t_seq t)) (good_event p)"
  have "length (good_event p) \<le> 1" by (simp add: good_event_def Let_def)
  then have ev: "good_event p = [] \<or> (\<exists>e. good_event p = [e])"
    by (cases "good_event p") auto
  have t': "t_sent t' = t_sent t @ map send_buff new" "t_seq t' = t_seq t + of_nat (length new)"
    using talker_body_running [OF assms(1)] ev by (auto simp: new_def)
  have "talk_inv u t' (ms @ new)"
    using ms(1) t' ev sent_ok_snoc [of u ms] by (auto simp: talk_inv_def new_def)
  moreover have "length (ms @ new) \<le> 2 ^ 24 \<longrightarrow> chan_inv (ms @ new) (str @ written t t') us"
    using chan_inv_write [of ms str us new] ms(2) t'(1) by (auto simp: written_def)
  ultimately show ?thesis
    unfolding side_inv_def by blast
qed

lemma recv_bytes_idem: "recv_bytes (recv_bytes bs) = recv_bytes bs"
  by (simp add: recv_bytes_def)

lemma side_read:
  assumes "side_inv u t str (used i a)" and "held_ok a" and "\<forall>v \<in> set ids. known_id v"
  shows "side_inv u t (chan_rest b str) (used i (abs_client ids i (chan_read b str) a))"
proof (cases b)
  case False
  with assms(1) show ?thesis by (simp add: chan_rest_def chan_read_def abs_client_def)
next
  case True
  obtain ms where ms: "talk_inv u t ms" "length ms \<le> 2 ^ 24 \<longrightarrow> chan_inv ms str (used i a)"
    using assms(1) by (auto simp: side_inv_def)
  have "chan_inv ms (drop (BUFFER_SIZE - 1) str) (used i (abs_client ids i (Some (recv_bytes str)) a))"
    if "length ms \<le> 2 ^ 24"
  proof (rule chan_inv_mono [OF chan_inv_read])
    show "sent_ok u ms" using ms(1) by (simp add: talk_inv_def)
    show "chan_inv ms str (used i a)" using ms(2) that by simp
    show "subseq (used i (abs_client ids i (Some (recv_bytes str)) a))
      (if recv_bytes str \<noteq> [] \<and> validate_payload (payload_of_bytes (recv_buff str)) ids CLIENT_COUNT
       then used i a @ [payload_of_bytes (recv_buff str)] else used i a)"
      using abs_client_used [OF assms(2), of i ids "recv_bytes str"] by (simp only: recv_bytes_idem recv_recv)
  qed (use that assms(3) in auto)
  with ms(1) True show ?thesis
    by (auto simp: side_inv_def chan_rest_def chan_read_def)
qed

interpretation tsq_system: step_invariant "tsq_step u0 u1" "sys_inv u0 u1" for u0 u1
proof
  fix s s'
  assume step: "tsq_step u0 u1 s s'" and inv: "sys_inv u0 u1 s"
  have ids: "cli_ids (q_lis s) = [u0, u1]" "\<forall>v \<in> set [u0, u1]. known_id v"
    using inv by (simp_all add: sys_inv_def)
  obtain a where a: "listener_rel (q_lis s) a" "held_ok a" "side_inv u0 (q_talk0 s) (q_str0 s) (used 0 a)"
    "side_inv u1 (q_talk1 s) (q_str1 s) (used 1 a)"
    using inv by (auto simp: sys_inv_def)
  from step show "sys_inv u0 u1 s'"
  proof cases
    case (talk0 p t)
    then show ?thesis using inv a side_talk by (auto simp: sys_inv_def)
  next
    case (talk1 p t)
    then show ?thesis using inv a side_talk by (auto simp: sys_inv_def)
  next
    case (sample r l b0 b1)
    let ?x0 = "chan_read b0 (q_str0 s)" and ?x1 = "chan_read b1 (q_str1 s)"
    let ?a0 = "abs_client [u0, u1] 0 ?x0 a"
    let ?a1 = "abs_client [u0, u1] 1 ?x1 ?a0"
    have rel: "listener_rel l (abs_compare ?a1)"
      using listener_round_rel [OF a(1) sample(2)] sample(3) ids(1) by (simp add: abs_round_def)
    have held: "held_ok ?a0" "held_ok ?a1" "held_ok (abs_compare ?a1)"
      using a(2) by (simp_all add: abs_client_held abs_compare_held)
    have "side_inv u0 (q_talk0 s) (chan_rest b0 (q_str0 s)) (used 0 ?a1)"
      using side_read [OF a(3,2) ids(2)] by (simp add: abs_client_other)
    moreover have "side_inv u1 (q_talk1 s) (chan_rest b1 (q_str1 s)) (used 1 ?a1)"
      by (rule side_read [OF _ held(1) ids(2)]) (use a(4) in \<open>simp add: abs_client_other\<close>)
    ultimately have "side_inv u0 (q_talk0 s) (chan_rest b0 (q_str0 s)) (used 0 (abs_compare ?a1))"
      and "side_inv u1 (q_talk1 s) (chan_rest b1 (q_str1 s)) (used 1 (abs_compare ?a1))"
      using side_inv_mono abs_compare_used by blast+
    moreover have "cli_ids l = [u0, u1]"
      using listener_round_ids(1) [OF sample(2)] ids(1) by simp
    ultimately show ?thesis
      using rel held(3) inv sample(1) by (auto simp: sys_inv_def)
  qed
qed

lemma sys_inv_start:
  assumes "tsq_start u0 u1 s" and "known_id u0" and "known_id u1"
  shows "sys_inv u0 u1 s"
proof -
  let ?a = "\<lparr>pend = (\<lambda>_. None), held = None, pairs = []\<rparr>"
  have "listener_rel (q_lis s) ?a"
    using assms(1) by (intro listener_inv_init) (simp_all add: tsq_start_def listener_fresh_def)
  moreover have "used 0 ?a = []" "used 1 ?a = []" "held_ok ?a"
    by (simp_all add: used_def current_def held_ok_def)
  moreover have "chan_inv [] [] []"
    unfolding chan_inv_def by (intro exI [of _ "[]"] exI [of _ 256]) simp
  moreover have "talk_inv u t []" if "t_sent t = []" "t_seq t = 0" "known_id u" for u t
    using that by (simp add: talk_inv_def sent_ok_def)
  ultimately show ?thesis
    using assms unfolding sys_inv_def side_inv_def tsq_start_def by metis
qed

section \<open>A listener that keeps up\<close>

text \<open>Nothing waits in the connections, no sample is pending or held, and \<open>n\<close> seconds have been sampled.\<close>

definition keeps_up :: "i32 \<Rightarrow> i32 \<Rightarrow> nat \<Rightarrow> tsq_sys \<Rightarrow> bool" where
  "keeps_up u0 u1 n s \<longleftrightarrow>
     q_str0 s = [] \<and> q_str1 s = [] \<and> halt_sig (t_glob (q_talk0 s)) = 0 \<and> halt_sig (t_glob (q_talk1 s)) = 0 \<and>
     halt_sig (l_glob (q_lis s)) = 0 \<and> t_seq (q_talk0 s) = of_nat n \<and> t_seq (q_talk1 s) = of_nat n \<and>
     length (t_sent (q_talk0 s)) = n \<and> length (t_sent (q_talk1 s)) = n \<and>
     rounds (q_lis s) = of_nat n \<and> cli_ids (q_lis s) = [u0, u1] \<and> length (cli_conns (q_lis s)) = 2 \<and>
     length (cli_data (q_lis s)) = 2 \<and> pl_valid_flag (q_lis s) = [False, False] \<and> \<not> skip_slot (q_lis s)"

lemma talk_poll:
  assumes "halt_sig (t_glob t) = 0" and "fst e \<noteq> 0" and "snd e \<noteq> 0"
  shows "talker_body u (ex_poll e) t =
    Running (t\<lparr>t_sent := t_sent t @ [send_buff (talker_payload u (t_seq t) e)], t_seq := t_seq t + 1\<rparr>)"
  using assms
  by (simp add: talker_body_def ex_poll_def Let_def signalled_iff EXTTS_SIZE_def talker_payload_def ucast_u32_u64_eq_0)

lemma recv_send: "payload_of_bytes (recv_buff (take 255 (send_buff p))) = p"
  using payload_recv_send [of p "[]"] recv_recv [of "send_buff p"] by (simp add: recv_bytes_def BUFFER_SIZE_def)

lemma send_buff_last: "drop 255 (send_buff p) = [0]"
  by (simp add: send_buff_split tsq_payload.enc_length zeros_def)

lemma recv_zero: "payload_of_bytes (recv_buff [0]) = zero_payload"
  using recv_zeros [of 1] by (simp add: zeros_def)

lemma pair_logged:
  assumes "cli_conns l = [c0, c1]" and "pl_valid_flag l = [False, False]" and "length (cli_data l) = 2"
    and "\<not> skip_slot l" and "halt_sig (l_glob l) = 0" and "secs p = secs q"
    and "validate_payload p (cli_ids l) CLIENT_COUNT" and "validate_payload q (cli_ids l) CLIENT_COUNT"
  shows "\<exists>l1. listener_round (round_of (c0, c1) (take 255 (send_buff p)) (take 255 (send_buff q))) l = Running l1 \<and>
    fp_out l1 = fp_out l @ result_line (rounds l) 0 (nsecs p - nsecs q) \<and> rounds l1 = rounds l + 1 \<and>
    pl_valid_flag l1 = [False, False] \<and> length (cli_data l1) = 2 \<and> \<not> skip_slot l1 \<and> halt_sig (l_glob l1) = 0"
proof -
  obtain d0 d1 where d: "cli_data l = [d0, d1]"
    using assms(3) by (auto simp: numeral_2_eq_2 length_Suc_conv)
  have read: "recv_bytes (take 255 (send_buff x)) \<noteq> []" for x
    by (simp add: recv_bytes_def BUFFER_SIZE_def flip: length_greater_0_conv)
  show ?thesis
    using assms d
    by (simp add: listener_round_def round_of_def Let_def signalled_iff listener_client_def recv_send read
        listener_compare_def two_clients)
qed

lemma rest_ignored:
  assumes "cli_conns l = [c0, c1]" and "pl_valid_flag l = [False, False]" and "\<not> skip_slot l" and "halt_sig (l_glob l) = 0"
  shows "listener_round (round_of (c0, c1) [0] [0]) l = Running l"
  using assms
  by (simp add: listener_round_def round_of_def Let_def signalled_iff listener_client_def recv_zero
      validate_payload_iff zero_payload_def listener_compare_def two_clients)

lemma second_sampled:
  fixes e0 e1 :: extts
  assumes "keeps_up u0 u1 n s" and "known_id u0" and "known_id u1"
    and "fst e0 = fst e1" and "fst e1 \<noteq> 0" and "snd e0 \<noteq> 0" and "snd e1 \<noteq> 0"
  shows "\<exists>s'. (tsq_step u0 u1)\<^sup>*\<^sup>* s s' \<and> keeps_up u0 u1 (Suc n) s' \<and>
    fp_out (q_lis s') = fp_out (q_lis s) @ result_line (of_nat n) 0 (ucast (snd e0) - ucast (snd e1))"
proof -
  let ?p = "talker_payload u0 (t_seq (q_talk0 s)) e0" and ?q = "talker_payload u1 (t_seq (q_talk1 s)) e1"
  let ?t0 = "(q_talk0 s)\<lparr>t_sent := t_sent (q_talk0 s) @ [send_buff ?p], t_seq := t_seq (q_talk0 s) + 1\<rparr>"
  let ?t1 = "(q_talk1 s)\<lparr>t_sent := t_sent (q_talk1 s) @ [send_buff ?q], t_seq := t_seq (q_talk1 s) + 1\<rparr>"
  note s = assms(1) [unfolded keeps_up_def]
  obtain c0 c1 where conns: "cli_conns (q_lis s) = [c0, c1]"
    using s by (auto simp: numeral_2_eq_2 length_Suc_conv)
  define s1 where "s1 = s\<lparr>q_talk0 := ?t0, q_str0 := send_buff ?p\<rparr>"
  define s2 where "s2 = s1\<lparr>q_talk1 := ?t1, q_str1 := send_buff ?q\<rparr>"
  have "tsq_step u0 u1 s s1"
    using tsq_step.talk0 [OF talk_poll [of "q_talk0 s" e0 u0]] s assms(4-7) by (simp add: s1_def written_def)
  moreover have "tsq_step u0 u1 s1 s2"
    using tsq_step.talk1 [where s = s1, OF talk_poll [of "q_talk1 s1" e1 u1]] s assms(4-7)
    by (simp add: s1_def s2_def written_def)
  moreover have valid: "validate_payload ?p [u0, u1] CLIENT_COUNT" "validate_payload ?q [u0, u1] CLIENT_COUNT"
    using assms(2-7) by (auto simp: validate_payload_iff talker_payload_def known_id_def ucast_u32_u64_eq_0 CLIENT_COUNT_def)
  obtain l1 where l1: "listener_round (round_of (c0, c1) (take 255 (send_buff ?p)) (take 255 (send_buff ?q))) (q_lis s) = Running l1"
    "fp_out l1 = fp_out (q_lis s) @ result_line (of_nat n) 0 (ucast (snd e0) - ucast (snd e1))"
    "rounds l1 = of_nat (Suc n)" "pl_valid_flag l1 = [False, False]" "length (cli_data l1) = 2" "\<not> skip_slot l1"
    "halt_sig (l_glob l1) = 0"
    using pair_logged [OF conns, of ?p ?q] s valid assms(4) by (auto simp: talker_payload_def add.commute)
  note l1c = listener_round_ids [OF l1(1)]
  define s3 where "s3 = s2\<lparr>q_lis := l1, q_str0 := [0], q_str1 := [0]\<rparr>"
  have "tsq_step u0 u1 s2 s3"
    using tsq_step.sample [where s = s2 and ?b0.0 = True and ?b1.0 = True, OF _ _, of _ l1 u0 u1] l1(1) conns
    by (simp add: s3_def s2_def s1_def chan_read_def chan_rest_def arrivals_def arrival_def round_of_def
        recv_bytes_def BUFFER_SIZE_def send_buff_last)
  moreover define s4 where "s4 = s3\<lparr>q_str0 := [], q_str1 := []\<rparr>"
  have "tsq_step u0 u1 s3 s4"
    using tsq_step.sample [where s = s3 and ?b0.0 = True and ?b1.0 = True, OF rest_ignored, of c0 c1]
      l1 l1c conns
    by (simp add: s4_def s3_def chan_read_def chan_rest_def arrivals_def arrival_def round_of_def recv_bytes_def BUFFER_SIZE_def)
  ultimately have "(tsq_step u0 u1)\<^sup>*\<^sup>* s s4" by (meson converse_rtranclp_into_rtranclp rtranclp.rtrancl_refl)
  moreover have "keeps_up u0 u1 (Suc n) s4"
    using s l1 l1c by (simp add: keeps_up_def s4_def s3_def s2_def s1_def)
  ultimately show ?thesis
    using l1(2) by (intro exI [of _ s4]) (simp add: s4_def s3_def)
qed

text \<open>The pairs of a list of seconds, numbered from 0.\<close>

definition second_pairs :: "i32 \<Rightarrow> i32 \<Rightarrow> (extts \<times> extts) list \<Rightarrow> (payload \<times> payload) list" where
  "second_pairs u0 u1 es =
     map (\<lambda>k. (talker_payload u0 (of_nat k) (fst (es ! k)), talker_payload u1 (of_nat k) (snd (es ! k)))) [0..<length es]"

lemma second_pairs_snoc:
  "second_pairs u0 u1 (es @ [e]) = second_pairs u0 u1 es @
     [(talker_payload u0 (of_nat (length es)) (fst e), talker_payload u1 (of_nat (length es)) (snd e))]"
  by (simp add: second_pairs_def nth_append)

lemma render_lines:
  "render k ps =
     concat (map (\<lambda>i. result_line (of_nat (k + i)) 0 (nsecs (fst (ps ! i)) - nsecs (snd (ps ! i)))) [0..<length ps])"
  by (induction k ps rule: render.induct)
    (simp_all add: upt_conv_Cons map_Suc_upt [symmetric] comp_def ac_simps del: upt_Suc)

lemma seconds_sampled:
  assumes "known_id u0" and "known_id u1" and "keeps_up u0 u1 0 s" and "fp_out (q_lis s) = []"
  shows "\<forall>e \<in> set es. fst (fst e) = fst (snd e) \<and> fst (snd e) \<noteq> 0 \<and> snd (fst e) \<noteq> 0 \<and> snd (snd e) \<noteq> 0 \<Longrightarrow>
    \<exists>s'. (tsq_step u0 u1)\<^sup>*\<^sup>* s s' \<and> keeps_up u0 u1 (length es) s' \<and> fp_out (q_lis s') = render 0 (second_pairs u0 u1 es)"
proof (induction es rule: rev_induct)
  case Nil
  with assms show ?case by (intro exI [of _ s]) (simp add: second_pairs_def)
next
  case (snoc e es)
  then obtain s1 where s1: "(tsq_step u0 u1)\<^sup>*\<^sup>* s s1" "keeps_up u0 u1 (length es) s1"
    "fp_out (q_lis s1) = render 0 (second_pairs u0 u1 es)" by auto
  have len: "length (second_pairs u0 u1 es) = length es" by (simp add: second_pairs_def)
  obtain s2 where s2: "(tsq_step u0 u1)\<^sup>*\<^sup>* s1 s2" "keeps_up u0 u1 (Suc (length es)) s2"
    "fp_out (q_lis s2) = fp_out (q_lis s1) @ result_line (of_nat (length es)) 0 (ucast (snd (fst e)) - ucast (snd (snd e)))"
    using second_sampled [OF s1(2) assms(1,2), of "fst e" "snd e"] snoc.prems by auto
  have "(tsq_step u0 u1)\<^sup>*\<^sup>* s s2"
    using s1(1) s2(1) by (rule rtranclp_trans)
  then show ?case
    using s2(2,3) s1(3)
    by (intro exI [of _ s2]) (simp add: second_pairs_snoc render_snoc len talker_payload_def)
qed

section \<open>Properties\<close>


definition ex_sys :: tsq_sys where
  "ex_sys =
     \<lparr>q_talk0 = \<lparr>t_glob = tsq_glob_init, t_seq = 0, t_sent = []\<rparr>,
      q_talk1 = \<lparr>t_glob = tsq_glob_init, t_seq = 0, t_sent = []\<rparr>, q_str0 = [], q_str1 = [], q_lis = ex_state\<rparr>"

lemma ex_sys_start: "tsq_start 1234 1235 ex_sys"
  by (simp add: tsq_start_def ex_sys_def ex_state_def listener_init_def listener_fresh_def CLIENT_COUNT_def)




end
