(* ===== verification/Tsq_Signal.thy ===== *)
theory Tsq_Signal
  imports Tsq_Core
begin

text \<open>
  The halt flag of \<^verbatim>\<open>src/tsq.c\<close> under its mutex, at the granularity of the single statements of
  \<^verbatim>\<open>get_signal()\<close> and \<^verbatim>\<open>sigint_handler()\<close>. A signal handler runs on the thread it interrupts:
  while one is active the main program does not move, and a handler can itself be interrupted
  by another of the three signals that are caught. The mutex is the default, non-recursive one:
  \<^verbatim>\<open>pthread_mutex_lock\<close> on a locked mutex does not return.
\<close>

section \<open>The machine\<close>

datatype main_pc = M_idle | M_locked | M_read cint | M_ret cint

datatype hand_pc = H_start | H_locked | H_set | H_unlocked

record sig_st =
  main_at :: main_pc
  handlers :: "(cint \<times> hand_pc) list"
  locked :: bool
  flag :: cint

text \<open>SIGINT, SIGABRT, SIGTERM: the signals \<^verbatim>\<open>main\<close> installs the handler for.\<close>

definition caught :: "cint set" where "caught = {2, 6, 15}"

definition sig_init :: sig_st where
  "sig_init = \<lparr>main_at = M_idle, handlers = [], locked = False, flag = 0\<rparr>"

inductive sig_step :: "sig_st \<Rightarrow> sig_st \<Rightarrow> bool" where
  get_lock: "handlers s = [] \<Longrightarrow> main_at s = M_idle \<Longrightarrow> \<not> locked s \<Longrightarrow>
    sig_step s (s\<lparr>main_at := M_locked, locked := True\<rparr>)"
| get_temp: "handlers s = [] \<Longrightarrow> main_at s = M_locked \<Longrightarrow>
    sig_step s (s\<lparr>main_at := M_read (flag s)\<rparr>)"
| get_unlock: "handlers s = [] \<Longrightarrow> main_at s = M_read t \<Longrightarrow>
    sig_step s (s\<lparr>main_at := M_ret t, locked := False\<rparr>)"
| get_again: "handlers s = [] \<Longrightarrow> main_at s = M_ret 0 \<Longrightarrow> sig_step s (s\<lparr>main_at := M_idle\<rparr>)"
| arrive: "n \<in> caught \<Longrightarrow> n \<notin> fst ` set (handlers s) \<Longrightarrow>
    sig_step s (s\<lparr>handlers := (n, H_start) # handlers s\<rparr>)"
| hand_lock: "handlers s = (n, H_start) # hs \<Longrightarrow> \<not> locked s \<Longrightarrow>
    sig_step s (s\<lparr>handlers := (n, H_locked) # hs, locked := True\<rparr>)"
| hand_set: "handlers s = (n, H_locked) # hs \<Longrightarrow>
    sig_step s (s\<lparr>handlers := (n, H_set) # hs, flag := n\<rparr>)"
| hand_unlock: "handlers s = (n, H_set) # hs \<Longrightarrow>
    sig_step s (s\<lparr>handlers := (n, H_unlocked) # hs, locked := False\<rparr>)"
| hand_return: "handlers s = (n, H_unlocked) # hs \<Longrightarrow> sig_step s (s\<lparr>handlers := hs\<rparr>)"

inductive_cases sig_stepE: "sig_step s s'"

definition sig_reach :: "sig_st \<Rightarrow> sig_st \<Rightarrow> bool" where
  "sig_reach = sig_step\<^sup>*\<^sup>*"

section \<open>Invariants\<close>

definition main_holds :: "sig_st \<Rightarrow> nat" where
  "main_holds s = (case main_at s of M_locked \<Rightarrow> 1 | M_read _ \<Rightarrow> 1 | _ \<Rightarrow> 0)"

definition hand_holds :: "cint \<times> hand_pc \<Rightarrow> nat" where
  "hand_holds h = (case snd h of H_locked \<Rightarrow> 1 | H_set \<Rightarrow> 1 | _ \<Rightarrow> 0)"

text \<open>The parties inside their critical section: one when the mutex is locked, none otherwise.\<close>

definition holders :: "sig_st \<Rightarrow> nat" where
  "holders s = main_holds s + sum_list (map hand_holds (handlers s))"

definition mutex_ok :: "sig_st \<Rightarrow> bool" where
  "mutex_ok s \<longleftrightarrow> holders s = (if locked s then 1 else 0)"

interpretation sig_mutex: step_invariant sig_step mutex_ok
proof
  show "sig_step s s' \<Longrightarrow> mutex_ok s \<Longrightarrow> mutex_ok s'" for s s'
    by (induction rule: sig_step.induct)
      (auto simp: mutex_ok_def holders_def main_holds_def hand_holds_def split: if_splits)
qed

text \<open>The main program inside its critical section below a handler that waits for the mutex.\<close>

definition self_locked :: "main_pc \<Rightarrow> cint \<Rightarrow> sig_st \<Rightarrow> bool" where
  "self_locked pc v s \<longleftrightarrow>
     main_at s = pc \<and> flag s = v \<and> locked s \<and> handlers s \<noteq> [] \<and> set (map snd (handlers s)) = {H_start}"

interpretation sig_hang: step_invariant sig_step "self_locked pc v" for pc v
proof
  show "sig_step s s' \<Longrightarrow> self_locked pc v s \<Longrightarrow> self_locked pc v s'" for s s'
    by (induction rule: sig_step.induct) (auto simp: self_locked_def)
qed

text \<open>Once set, the flag stays set, and a look at it that starts afterwards returns it.\<close>

definition flag_seen :: "sig_st \<Rightarrow> bool" where
  "flag_seen s \<longleftrightarrow> flag s \<noteq> 0 \<and> main_at s \<notin> {M_read 0, M_ret 0}
     \<and> fst ` set (handlers s) \<subseteq> caught"

interpretation sig_flag: step_invariant sig_step flag_seen
proof
  show "sig_step s s' \<Longrightarrow> flag_seen s \<Longrightarrow> flag_seen s'" for s s'
    by (induction rule: sig_step.induct) (auto simp: flag_seen_def caught_def)
qed

section \<open>Properties\<close>

text \<open>
  Mutual exclusion. In every reachable state at most one of \<^verbatim>\<open>get_signal()\<close> and the active
  handlers is between its lock and its unlock, and the mutex is locked exactly when one is.
\<close>

theorem halt_flag_mutex:
  assumes "sig_reach sig_init s"
  shows "holders s = (if locked s then 1 else 0)"
proof -
  have "mutex_ok s"
    by (rule sig_mutex.inv_reach [OF assms [unfolded sig_reach_def]])
      (simp add: mutex_ok_def holders_def main_holds_def sig_init_def)
  then show ?thesis by (simp add: mutex_ok_def)
qed

theorem halt_flag_mutex_witness:
  "\<exists>s. sig_reach sig_init s \<and> locked s \<and> holders s = (if locked s then 1 else 0)"
proof -
  let ?s = "sig_init\<lparr>main_at := M_locked, locked := True\<rparr>"
  have "sig_reach sig_init ?s"
    unfolding sig_reach_def by (rule r_into_rtranclp) (rule get_lock; simp add: sig_init_def)
  from halt_flag_mutex [OF this] this show ?thesis by auto
qed





end
