(* ===== verification/Txrx_Options.thy ===== *)
theory Txrx_Options
  imports Argp
begin

text \<open>
  The options of \<^verbatim>\<open>txrx-tsn\<close>: \<^verbatim>\<open>struct user_opt\<close> of \<^verbatim>\<open>src/txrx.h\<close> and the argument parser of
  \<^verbatim>\<open>src/txrx.c\<close>, in the build with AF_XDP support (\<^verbatim>\<open>WITH_XDP\<close>). Besides the structure the parser
  changes two globals, \<^verbatim>\<open>verbose\<close> and \<^verbatim>\<open>dst_mac_addr\<close>; \<open>txrx_cfg\<close> holds all three.
\<close>

section \<open>Data\<close>

record xsk_opt =
  xo_queue :: u8
  xo_xdp_flags :: u32
  xo_bind_flags :: u32
  xo_frame_size :: u16
  xo_frames_per_ring :: u16

record user_opt =
  app_mode :: u8
  socket_mode :: u8
  ifname :: "string option"
  ifindex :: u32
  clkid :: cint
  enable_hwts :: cint
  socket_prio :: u32
  vlan_prio :: u8
  packet_size :: u32
  frames_to_send :: u32
  interval_ns :: u32
  offset_ns :: u32
  early_offset_ns :: u32
  x_opt :: xsk_opt
  xdp_mode :: u8
  enable_poll :: u8
  enable_txtime :: u8
  need_wakeup :: bool
  poll_timeout :: u32

record txrx_cfg =
  opts :: user_opt
  txrx_verbose :: cint
  dst_mac_addr :: bytes

definition MODE_INVALID :: u8 where "MODE_INVALID = 99"
definition MODE_AFXDP :: u8 where "MODE_AFXDP = 1"
definition MODE_AFPKT :: u8 where "MODE_AFPKT = 2"
definition MODE_TX :: u8 where "MODE_TX = 0"
definition MODE_RX :: u8 where "MODE_RX = 1"
definition XDP_MODE_SKB_COPY :: u8 where "XDP_MODE_SKB_COPY = 0"
definition XDP_MODE_NATIVE_COPY :: u8 where "XDP_MODE_NATIVE_COPY = 1"
definition XDP_MODE_ZERO_COPY :: u8 where "XDP_MODE_ZERO_COPY = 2"
definition CLOCK_REALTIME :: cint where "CLOCK_REALTIME = 0"

section \<open>The parser\<close>

definition set_opt :: "(user_opt \<Rightarrow> user_opt) \<Rightarrow> txrx_cfg \<Rightarrow> txrx_cfg argp_res" where
  "set_opt f c = ArgpOk (c\<lparr>opts := f (opts c)\<rparr>)"

text \<open>The numeric options: bounds as in the code, the accepted value stored as \<^verbatim>\<open>uint32_t\<close>.\<close>

definition txrx_num :: "int \<Rightarrow> int \<Rightarrow> string \<Rightarrow> string \<Rightarrow> (u32 \<Rightarrow> user_opt \<Rightarrow> user_opt) \<Rightarrow> txrx_cfg
    \<Rightarrow> txrx_cfg argp_res" where
  "txrx_num lo hi arg msg f c =
     (case parse_bounded lo hi arg of
        Some v \<Rightarrow> ArgpOk (c\<lparr>opts := f (word_of_int v) (opts c)\<rparr>)
      | None \<Rightarrow> ArgpExit (''Error: '' @ msg @ ''\<newline>''))"

text \<open>\<^verbatim>\<open>-q\<close> sets the socket priority, the XDP queue and the VLAN priority bits.\<close>

definition set_prio :: "u32 \<Rightarrow> user_opt \<Rightarrow> user_opt" where
  "set_prio p opt =
     opt\<lparr>socket_prio := p, x_opt := (x_opt opt)\<lparr>xo_queue := ucast p\<rparr>, vlan_prio := ucast (p * 32)\<rparr>"

text \<open>\<^verbatim>\<open>-d\<close>: six bytes in hexadecimal, separated by colons.\<close>

definition txrx_mac :: "string \<Rightarrow> txrx_cfg \<Rightarrow> txrx_cfg argp_res" where
  "txrx_mac arg c =
     (let bs = scan_hhx_list 6 arg
      in if length bs \<noteq> 6 then ArgpExit (''Error: Invalid destination MAC addr. Check --help\<newline>'')
         else ArgpOk (c\<lparr>dst_mac_addr := bs\<rparr>))"

definition txrx_parser :: "char \<Rightarrow> string \<Rightarrow> txrx_cfg \<Rightarrow> txrx_cfg argp_res" where
  "txrx_parser key arg c =
     (if key = CHR ''v'' then ArgpOk (c\<lparr>txrx_verbose := 1\<rparr>)
      else if key = CHR ''h'' then set_opt (\<lambda>p. p\<lparr>enable_hwts := 1\<rparr>) c
      else if key = CHR ''i'' then set_opt (\<lambda>p. p\<lparr>ifname := Some arg\<rparr>) c
      else if key = CHR ''q'' then
        txrx_num 0 3 arg ''Invalid queue number/socket priority. Check --help'' set_prio c
      else if key = CHR ''X'' then set_opt (\<lambda>p. p\<lparr>socket_mode := MODE_AFXDP\<rparr>) c
      else if key = CHR ''P'' then set_opt (\<lambda>p. p\<lparr>socket_mode := MODE_AFPKT\<rparr>) c
      else if key = CHR ''t'' then set_opt (\<lambda>p. p\<lparr>app_mode := MODE_TX\<rparr>) c
      else if key = CHR ''r'' then set_opt (\<lambda>p. p\<lparr>app_mode := MODE_RX\<rparr>) c
      else if key = CHR ''z'' then set_opt (\<lambda>p. p\<lparr>xdp_mode := XDP_MODE_ZERO_COPY\<rparr>) c
      else if key = CHR ''c'' then set_opt (\<lambda>p. p\<lparr>xdp_mode := XDP_MODE_NATIVE_COPY\<rparr>) c
      else if key = CHR ''s'' then set_opt (\<lambda>p. p\<lparr>xdp_mode := XDP_MODE_SKB_COPY\<rparr>) c
      else if key = CHR ''T'' then set_opt (\<lambda>p. p\<lparr>enable_txtime := 1\<rparr>) c
      else if key = CHR ''p'' then set_opt (\<lambda>p. p\<lparr>enable_poll := 1\<rparr>) c
      else if key = CHR ''w'' then set_opt (\<lambda>p. p\<lparr>need_wakeup := True\<rparr>) c
      else if key = CHR ''l'' then
        txrx_num 64 1500 arg ''Invalid packet size. Check --help'' (\<lambda>v p. p\<lparr>packet_size := v\<rparr>) c
      else if key = CHR ''y'' then
        txrx_num 25000 50000000 arg ''Invalid cycle time. Check --help'' (\<lambda>v p. p\<lparr>interval_ns := v\<rparr>) c
      else if key = CHR ''n'' then
        txrx_num 1 10000000 arg ''Invalid number of frames to send. Check --help''
          (\<lambda>v p. p\<lparr>frames_to_send := v\<rparr>) c
      else if key = CHR ''o'' then
        txrx_num 0 100000000 arg ''Invalid offset. Check --help'' (\<lambda>v p. p\<lparr>offset_ns := v\<rparr>) c
      else if key = CHR ''e'' then
        txrx_num 0 10000000 arg ''Invalid early offset. Check --help''
          (\<lambda>v p. p\<lparr>early_offset_ns := v\<rparr>) c
      else if key = CHR ''d'' then
        txrx_mac arg c
      else ArgpUnknown)"

text \<open>The table of options, with the help text of each and the headings between them.\<close>

definition txrx_table :: "argp_option list" where
  "txrx_table =
     [Opt ''interface'' (CHR ''i'') (Some ''NAME'') ''interface name'',
      Heading ''Socket Mode:'',
      Opt ''afxdp'' (CHR ''X'') None ''run using AF_XDP socket'',
      Opt ''afpkt'' (CHR ''P'') None ''run using AF_PACKET socket'',
      Heading ''Mode:'',
      Opt ''transmit'' (CHR ''t'') None ''transmit only'',
      Opt ''receive'' (CHR ''r'') None ''receive only'',
      Heading ''XDP Mode:'',
      Opt ''zero-copy'' (CHR ''z'') None ''zero-copy mode'',
      Opt ''native-copy'' (CHR ''c'') None ''direct/native copy mode'',
      Opt ''skb'' (CHR ''s'') None ''skb mode'',
      Heading ''AF_XDP control:'',
      Opt ''launchtime'' (CHR ''T'') None ''enable time-based per-packet tx scheduling (TBS)'',
      Opt ''polling'' (CHR ''p'') None ''enable polling mode'',
      Opt ''wakeup'' (CHR ''w'') None ''enable need_wakeup'',
      Opt ''vlan-prio'' (CHR ''q'') (Some ''NUM'')
        (''packet vlan priority, also socket priority\<newline>'' @ tab @ ''Def: 0 | Min: 0 | Max: 3''),
      Heading ''TX control:'',
      Opt ''packet-size'' (CHR ''l'') (Some ''NUM'')
        (''packet size/length incl. headers in bytes\<newline>'' @ tab @ ''Def: 64 | Min: 64 | Max: 1500''),
      Opt ''cycle-time'' (CHR ''y'') (Some ''NSEC'')
        (''tx period/interval/cycle-time\<newline>'' @ tab @ ''Def: 100000ns | Min: 25000ns | Max: 50000000ns''),
      Opt ''frames-to-send'' (CHR ''n'') (Some ''NUM'')
        (''number of packets to transmit\<newline>'' @ tab @ ''Def: 1000 | Min: 1 | Max: 10000000''),
      Opt ''dst-mac-addr'' (CHR ''d'') (Some ''MAC_ADDR'')
        (''destination mac address\<newline>'' @ tab @ ''Def: 22:bb:22:bb:22:bb''),
      Heading ''LaunchTime/TBS-specific:\<newline>(where base is the 0th ns of current second)'',
      Opt ''transmit-offset'' (CHR ''o'') (Some ''NSEC'')
        (''packet txtime positive offset\<newline>'' @ tab @ ''Def: 0ns | Min: 0ns | Max: 100000000ns''),
      Opt ''early-offset'' (CHR ''e'') (Some ''NSEC'')
        (''early execution negative offset\<newline>'' @ tab @ ''Def: 100000ns | Min: 0ns | Max: 10000000ns''),
      Heading ''Misc:'',
      Opt ''hw-timestamps'' (CHR ''h'') None ''retrieve per-packet hardware timestamps (AF_PACKET)'',
      Opt ''verbose'' (CHR ''v'') None ''verbose & print warnings'']"

text \<open>The defaults of \<^verbatim>\<open>main\<close>: everything zero, then the assignments before \<^verbatim>\<open>argp_parse\<close>.\<close>

definition txrx_defaults :: txrx_cfg where
  "txrx_defaults =
     \<lparr>opts =
        \<lparr>app_mode = MODE_INVALID, socket_mode = MODE_INVALID, ifname = None, ifindex = 0,
         clkid = CLOCK_REALTIME, enable_hwts = 0, socket_prio = 0, vlan_prio = 0, packet_size = 64,
         frames_to_send = 1000, interval_ns = 100000, offset_ns = 0, early_offset_ns = 100000,
         x_opt = \<lparr>xo_queue = 0, xo_xdp_flags = 0, xo_bind_flags = 0, xo_frame_size = 4096,
                  xo_frames_per_ring = 4096\<rparr>,
         xdp_mode = XDP_MODE_ZERO_COPY, enable_poll = 0, enable_txtime = 0, need_wakeup = False,
         poll_timeout = 1000\<rparr>,
      txrx_verbose = 0, dst_mac_addr = [0x22, 0xbb, 0x22, 0xbb, 0x22, 0xbb]\<rparr>"

section \<open>What the parser guarantees\<close>

definition txrx_opt_ok :: "user_opt \<Rightarrow> bool" where
  "txrx_opt_ok p \<longleftrightarrow>
     unat (socket_prio p) \<le> 3 \<and> vlan_prio p = ucast (socket_prio p * 32) \<and>
     xo_queue (x_opt p) = ucast (socket_prio p) \<and>
     64 \<le> unat (packet_size p) \<and> unat (packet_size p) \<le> 1500 \<and>
     25000 \<le> unat (interval_ns p) \<and> unat (interval_ns p) \<le> 50000000 \<and>
     1 \<le> unat (frames_to_send p) \<and> unat (frames_to_send p) \<le> 10000000 \<and>
     unat (offset_ns p) \<le> 100000000 \<and> unat (early_offset_ns p) \<le> 10000000 \<and>
     xo_frames_per_ring (x_opt p) = 4096 \<and> xo_frame_size (x_opt p) = 4096"

definition txrx_cfg_ok :: "txrx_cfg \<Rightarrow> bool" where
  "txrx_cfg_ok c \<longleftrightarrow> txrx_opt_ok (opts c) \<and> length (dst_mac_addr c) = 6"

lemma unat_of_bounded:
  "0 \<le> v \<Longrightarrow> v < 4294967296 \<Longrightarrow> unat (word_of_int v :: u32) = nat v"
  by (simp add: unat_eq_nat_uint uint_word_of_int_eq take_bit_eq_mod)

lemma txrx_numE:
  assumes "txrx_num lo hi arg msg f c = ArgpOk c'" and "0 \<le> lo" and "hi < 4294967296"
    and "\<And>v. c' = c\<lparr>opts := f v (opts c)\<rparr> \<Longrightarrow> nat lo \<le> unat v \<Longrightarrow> unat v \<le> nat hi \<Longrightarrow> R"
  shows R
proof -
  obtain v where v: "parse_bounded lo hi arg = Some v" and c': "c' = c\<lparr>opts := f (word_of_int v) (opts c)\<rparr>"
    using assms(1) by (auto simp: txrx_num_def split: option.splits)
  have "unat (word_of_int v :: u32) = nat v" "lo \<le> v" "v \<le> hi"
    using parse_bounded_range [OF v] assms(2,3) by (auto intro!: unat_of_bounded)
  with c' assms(2) assms(4) [of "word_of_int v"] show R by auto
qed

lemma set_optE:
  assumes "set_opt f c = ArgpOk c'" and "c' = c\<lparr>opts := f (opts c)\<rparr> \<Longrightarrow> R"
  shows R
  using assms by (simp add: set_opt_def)

lemma txrx_macE:
  assumes "txrx_mac arg c = ArgpOk c'" and "\<And>bs. c' = c\<lparr>dst_mac_addr := bs\<rparr> \<Longrightarrow> length bs = 6 \<Longrightarrow> R"
  shows R
  using assms by (auto simp: txrx_mac_def Let_def split: if_splits)

lemmas txrx_elims = argp_okE argp_stopE argp_ifE set_optE txrx_numE txrx_macE

lemma txrx_table_ok: "table_ok txrx_table"
  by code_simp

lemma txrx_results:
  "argp_known (set_opt f c)" "argp_known (txrx_num lo hi arg msg g c)" "argp_known (txrx_mac arg c)"
  by (simp_all add: set_opt_def txrx_num_def txrx_mac_def Let_def split: option.split)

interpretation txrx_options: option_table txrx_parser txrx_cfg_ok txrx_table
proof
  show "txrx_cfg_ok c \<Longrightarrow> txrx_parser key arg c = ArgpOk c' \<Longrightarrow> txrx_cfg_ok c'" for c key arg c'
    unfolding txrx_parser_def
    by (elim txrx_elims) (simp_all add: txrx_cfg_ok_def txrx_opt_ok_def set_prio_def)
  show "table_ok txrx_table"
    by (rule txrx_table_ok)
  show "argp_known (txrx_parser k a c)"
    if "e \<in> set txrx_table" and "ao_key e = Some k" for e k a c
  proof -
    have "table_keys txrx_table = ''iXPtrzcsTpwqlyndoehv''" by code_simp
    with table_keys_mem [OF that] have "k \<in> set ''iXPtrzcsTpwqlyndoehv''" by simp
    then show ?thesis
      unfolding set_simps by (elim insertE emptyE) (simp_all add: txrx_parser_def txrx_results)
  qed
  show "txrx_parser k a c = txrx_parser k b c"
    if "e \<in> set txrx_table" and "ao_key e = Some k" and "ao_arg e = None" for e k a b c
  proof -
    have "table_keys (filter (\<lambda>e. ao_arg e = None) txrx_table) = ''XPtrzcsTpwhv''" by code_simp
    with table_keys_no_arg [OF that] have "k \<in> set ''XPtrzcsTpwhv''" by simp
    then show ?thesis
      unfolding set_simps by (elim insertE emptyE) (simp_all add: txrx_parser_def)
  qed
qed

lemma txrx_defaults_ok: "txrx_cfg_ok txrx_defaults"
  by (simp add: txrx_cfg_ok_def txrx_opt_ok_def txrx_defaults_def)

section \<open>MAC addresses as text\<close>

definition hex_char :: "nat \<Rightarrow> char" where
  "hex_char d = char_of (if d < 10 then 48 + d else 87 + d)"

definition hex2 :: "u8 \<Rightarrow> string" where
  "hex2 b = [hex_char (unat b div 16), hex_char (unat b mod 16)]"

fun mac_text :: "bytes \<Rightarrow> string" where
  "mac_text [] = []"
| "mac_text [b] = hex2 b"
| "mac_text (b # bs) = hex2 b @ CHR '':'' # mac_text bs"

lemma hex_val_char: "d < 16 \<Longrightarrow> hex_val (hex_char d) = Some d"
  by (simp add: hex_val_def hex_char_def of_char_of)

lemma hex_char_plain:
  assumes "d < 16"
  shows "is_hex (hex_char d)" "\<not> is_space (hex_char d)" "hex_char d \<noteq> CHR ''-''" "hex_char d \<noteq> CHR ''+''"
    "hex_char d \<noteq> CHR ''x''" "hex_char d \<noteq> CHR ''X''"
proof -
  have code: "(of_char (hex_char d) :: nat) = (if d < 10 then 48 + d else 87 + d)"
    using assms by (simp add: hex_char_def of_char_of)
  show "is_hex (hex_char d)"
    using assms by (simp add: is_hex_def hex_val_char)
  show "\<not> is_space (hex_char d)"
    using code assms by (auto simp: is_space_def Let_def)
  show "hex_char d \<noteq> CHR ''-''" "hex_char d \<noteq> CHR ''+''" "hex_char d \<noteq> CHR ''x''" "hex_char d \<noteq> CHR ''X''"
    using code assms by (auto split: if_splits)
qed

lemma scan_hex2:
  assumes "rest = [] \<or> hd rest = CHR '':''"
  shows "scan_hhx (hex2 b @ rest) = Some (b, rest)"
proof -
  define h l where "h = unat b div 16" and "l = unat b mod 16"
  have b: "unat b < 256" by (rule unat_bounds)
  then have hl: "h < 16" "l < 16" and sum: "16 * h + l = unat b"
    by (simp_all add: h_def l_def)
  have colon: "\<not> is_hex (CHR '':'')" by code_simp
  have tw: "takeWhile is_hex (hex2 b @ rest) = hex2 b" and dw: "dropWhile is_hex (hex2 b @ rest) = rest"
    using assms colon hex_char_plain(1) [OF hl(1)] hex_char_plain(1) [OF hl(2)]
    by (cases rest; auto simp: hex2_def h_def l_def)+
  have val: "hexs_val (hex2 b) = unat b"
    using hl sum by (simp add: hexs_val_def hex2_def h_def [symmetric] l_def [symmetric] hex_val_char)
  have sign: "take_sign (dropWhile is_space (hex2 b @ rest)) = (False, hex2 b @ rest)"
    and pre: "drop_0x (hex2 b @ rest) = hex2 b @ rest"
    using hex_char_plain [OF hl(1)] hex_char_plain [OF hl(2)]
    by (simp_all add: hex2_def h_def [symmetric] l_def [symmetric] take_sign_def drop_0x_def)
  have "hex2 b \<noteq> []" by (simp add: hex2_def)
  moreover have "min (uint b) 18446744073709551615 = uint b"
    using unsigned_less [of b, where ?'a = int] by simp
  ultimately show ?thesis
    by (simp add: scan_hhx_def sign pre tw dw val Let_def)
qed

lemma scan_mac_text: "scan_hhx_list (length bs) (mac_text bs) = bs"
proof (induction bs rule: mac_text.induct)
  case (2 b)
  then show ?case using scan_hex2 [of "[]" b] by simp
next
  case (3 b c bs)
  then show ?case using scan_hex2 [of "CHR '':'' # mac_text (c # bs)" b] by simp
qed simp

section \<open>Properties\<close>

text \<open>
  C24: whatever the command line, the options the program runs with are inside the documented
  ranges: priority 0 to 3 with the VLAN priority in the top three bits of its byte and the XDP
  queue equal to it, 64 to 1500 bytes per packet, a cycle of 25 microseconds to 50 milliseconds,
  1 to ten million frames, and six bytes of MAC address.
\<close>

theorem txrx_options_in_range:
  assumes "argp_parse txrx_table txrx_parser argv txrx_defaults = ArgpOk c"
  shows "txrx_cfg_ok c"
  by (rule txrx_options.parse_wf [OF txrx_defaults_ok assms])

theorem txrx_options_in_range_witness:
  "\<exists>c. argp_parse txrx_table txrx_parser [''-Pq3''] txrx_defaults = ArgpOk c \<and> vlan_prio (opts c) = 96 \<and> txrx_cfg_ok c"
proof -
  have "argp_scan txrx_table False [''-Pq3''] = [Event (Key (CHR ''P'')) None, Event (Key (CHR ''q'')) (Some ''3'')]"
    and "parse_bounded 0 3 ''3'' = Some 3"
    by code_simp+
  then obtain c where "argp_parse txrx_table txrx_parser [''-Pq3''] txrx_defaults = ArgpOk c"
    and "vlan_prio (opts c) = 96"
    by (simp add: argp_parse_def txrx_parser_def txrx_num_def set_opt_def set_prio_def)
  with txrx_options_in_range [of "[''-Pq3'']" c] show ?thesis by blast
qed



text \<open>
  C26: the help text of \<^verbatim>\<open>txrx-tsn\<close> is right. For every option whose text gives a default and
  limits, the decimal numbers the parser accepts are exactly those between the limits, and giving
  the default changes nothing.
\<close>

theorem txrx_help_text:
  assumes "e \<in> set txrx_table" and "ao_key e = Some k" and "documented (ao_doc e) = Some (d, lo, hi)"
  shows "txrx_parser k (show_int d) txrx_defaults = ArgpOk txrx_defaults \<and>
         ((\<exists>c'. txrx_parser k (show_int v) c = ArgpOk c') \<longleftrightarrow> lo \<le> v \<and> v \<le> hi)"
proof -
  have "map (\<lambda>e. (ao_key e, documented (ao_doc e))) (filter (\<lambda>e. documented (ao_doc e) \<noteq> None) txrx_table) =
      [(Some (CHR ''q''), Some (0, 0, 3)), (Some (CHR ''l''), Some (64, 64, 1500)),
       (Some (CHR ''y''), Some (100000, 25000, 50000000)), (Some (CHR ''n''), Some (1000, 1, 10000000)),
       (Some (CHR ''o''), Some (0, 0, 100000000)), (Some (CHR ''e''), Some (100000, 0, 10000000))]"
    by code_simp
  from documented_cases [OF this assms] show ?thesis
    unfolding set_simps
    by (elim insertE emptyE; clarify; simp add: txrx_parser_def txrx_num_def set_prio_def txrx_defaults_def parse_bounded_show_int LONG_MIN_def LONG_MAX_def)
qed

theorem txrx_help_text_witness:
  "txrx_parser (CHR ''l'') ''64'' txrx_defaults = ArgpOk txrx_defaults \<and>
   \<not> (\<exists>c'. txrx_parser (CHR ''l'') ''1501'' txrx_defaults = ArgpOk c')"
proof -
  have "txrx_table ! 17 \<in> set txrx_table" and "ao_key (txrx_table ! 17) = Some (CHR ''l'')"
    and "documented (ao_doc (txrx_table ! 17)) = Some (64, 64, 1500)"
    and "show_int 64 = ''64''" and "show_int 1501 = ''1501''"
    by code_simp+
  then show ?thesis
    using txrx_help_text [of "txrx_table ! 17" "CHR ''l''" 64 64 1500 1501 txrx_defaults] by simp
qed

text \<open>
  Every MAC address can be given on the command line: its usual text form is parsed to
  exactly its six bytes.
\<close>

theorem txrx_mac_roundtrip:
  assumes "length mac = 6"
  shows "txrx_parser (CHR ''d'') (mac_text mac) c = ArgpOk (c\<lparr>dst_mac_addr := mac\<rparr>)"
  using scan_mac_text [of mac] assms by (simp add: txrx_parser_def txrx_mac_def)

theorem txrx_mac_roundtrip_witness:
  "txrx_parser (CHR ''d'') ''01:00:5e:90:ab:cd'' txrx_defaults =
     ArgpOk (txrx_defaults\<lparr>dst_mac_addr := [0x01, 0x00, 0x5e, 0x90, 0xab, 0xcd]\<rparr>)"
proof -
  have "mac_text [0x01, 0x00, 0x5e, 0x90, 0xab, 0xcd] = ''01:00:5e:90:ab:cd''" by code_simp
  with txrx_mac_roundtrip [of "[0x01, 0x00, 0x5e, 0x90, 0xab, 0xcd]" txrx_defaults] show ?thesis
    by simp
qed

text \<open>
  An empty argument is accepted as 0 by the options whose range includes 0, since a
  conversion that consumes nothing leaves the end pointer at the end of the empty string.
\<close>

theorem txrx_empty_argument:
  "txrx_parser (CHR ''q'') [] c = ArgpOk (c\<lparr>opts := set_prio 0 (opts c)\<rparr>) \<and>
   txrx_parser (CHR ''o'') [] c = ArgpOk (c\<lparr>opts := (opts c)\<lparr>offset_ns := 0\<rparr>\<rparr>) \<and>
   txrx_parser (CHR ''e'') [] c = ArgpOk (c\<lparr>opts := (opts c)\<lparr>early_offset_ns := 0\<rparr>\<rparr>)"
proof -
  have "parse_bounded 0 hi [] = Some 0" if "0 \<le> hi" for hi
    using that by (subst parse_bounded_def) (simp add: strtol10_def take_sign_def)
  then show ?thesis by (simp add: txrx_parser_def txrx_num_def)
qed

end
