(* ===== verification/Txrx_Packet.thy ===== *)
theory Txrx_Packet
  imports Txrx_Options
begin

text \<open>
  The packets of \<^verbatim>\<open>txrx-tsn\<close>: \<^verbatim>\<open>tsn_packet\<close> and \<^verbatim>\<open>struct custom_payload\<close> of \<^verbatim>\<open>src/txrx.h\<close>, the
  template that \<^verbatim>\<open>setup_tsn_vlan_packet()\<close> prepares, and the clock helpers of \<^verbatim>\<open>src/txrx.c\<close>. A
  packet is its byte buffer; the fields of the packed structure are at the offsets 0 (destination),
  6 (source), 12 (VLAN type), 14 (VLAN priority), 15 (VLAN identifier), 16 (type) and 18
  (payload).
\<close>

section \<open>Clocks\<close>

definition get_time_nanosec :: "timespec \<Rightarrow> u64" where
  "get_time_nanosec now = word_of_int (tv_sec now * NSEC_PER_SEC + tv_nsec now)"

definition get_time_sec :: "timespec \<Rightarrow> u64" where
  "get_time_sec now = word_of_int (tv_sec now * NSEC_PER_SEC)"

section \<open>The payload\<close>

record custom_payload =
  tx_queue :: u32
  pl_seq :: u32
  tx_timestampA :: u64
  rx_timestampD :: u64

definition custom_bytes :: "custom_payload \<Rightarrow> bytes" where
  "custom_bytes p =
     bytes_of_u32 (tx_queue p) @ bytes_of_u32 (pl_seq p) @ bytes_of_u64 (tx_timestampA p) @
     bytes_of_u64 (rx_timestampD p)"

definition custom_of_bytes :: "bytes \<Rightarrow> custom_payload" where
  "custom_of_bytes bs =
     \<lparr>tx_queue = u32_of_bytes (get_bytes 0 4 bs), pl_seq = u32_of_bytes (get_bytes 4 4 bs),
      tx_timestampA = u64_of_bytes (get_bytes 8 8 bs), rx_timestampD = u64_of_bytes (get_bytes 16 8 bs)\<rparr>"

interpretation txrx_payload: struct_codec custom_bytes custom_of_bytes 24
proof
  show "length (custom_bytes x) = 24" for x
    by (simp add: custom_bytes_def)
  show "custom_of_bytes (custom_bytes x @ rest) = x" for x rest
    by (simp add: custom_of_bytes_def custom_bytes_def get_bytes_def)
qed

section \<open>The template\<close>

definition src_mac_addr :: bytes where
  "src_mac_addr = [0xaa, 0x00, 0xaa, 0x00, 0xaa, 0x00]"

definition VLAN_ID :: u8 where "VLAN_ID = 3"
definition ETHERTYPE_VLAN :: u16 where "ETHERTYPE_VLAN = 0x8100"
definition ETH_P_TSN :: u16 where "ETH_P_TSN = 0x22f0"
definition ETH_P_UADP :: u16 where "ETH_P_UADP = 0xb62c"
definition PAYLOAD_OFF :: nat where "PAYLOAD_OFF = 18"

text \<open>The type field is written twice; the second write is the documented workaround.\<close>

definition setup_tsn_vlan_packet :: "txrx_cfg \<Rightarrow> bytes" where
  "setup_tsn_vlan_packet c =
     (let p0 = replicate (unat (packet_size (opts c))) 0xab;
          p1 = put_bytes 6 (take 6 src_mac_addr) p0;
          p2 = put_bytes 0 (take 6 (dst_mac_addr c)) p1;
          p3 = put_bytes 12 (bytes_of_u16 (htons ETHERTYPE_VLAN)) p2;
          p4 = put_bytes 15 [VLAN_ID] p3;
          p5 = put_bytes 14 [vlan_prio (opts c)] p4;
          p6 = put_bytes 16 (bytes_of_u16 (htons ETH_P_TSN)) p5
      in put_bytes 16 (bytes_of_u16 (htons ETH_P_UADP)) p6)"

text \<open>The stores of the sending loops through the \<^verbatim>\<open>payload\<close> pointer.\<close>

definition set_tx_queue :: "u32 \<Rightarrow> bytes \<Rightarrow> bytes" where
  "set_tx_queue q pkt = put_bytes PAYLOAD_OFF (bytes_of_u32 q) pkt"

definition set_seq :: "u32 \<Rightarrow> bytes \<Rightarrow> bytes" where
  "set_seq sq pkt = put_bytes (PAYLOAD_OFF + 4) (bytes_of_u32 sq) pkt"

definition set_timestampA :: "u64 \<Rightarrow> bytes \<Rightarrow> bytes" where
  "set_timestampA t pkt = put_bytes (PAYLOAD_OFF + 8) (bytes_of_u64 t) pkt"

definition packet_payload :: "bytes \<Rightarrow> custom_payload" where
  "packet_payload pkt = custom_of_bytes (drop PAYLOAD_OFF pkt)"

section \<open>Lemmas\<close>

lemma le_enc_2: "le_enc 2 v = [of_nat (v mod 256), of_nat (v div 256 mod 256)]"
  by (simp add: numeral_2_eq_2)

lemma htons_values [simp]:
  "bytes_of_u16 (htons ETHERTYPE_VLAN) = [0x81, 0x00]"
  "bytes_of_u16 (htons ETH_P_TSN) = [0x22, 0xf0]"
  "bytes_of_u16 (htons ETH_P_UADP) = [0xb6, 0x2c]"
  by (simp_all add: htons_def u16_of_bytes_def bytes_of_u16_def le_enc_2 ETHERTYPE_VLAN_def ETH_P_TSN_def
      ETH_P_UADP_def)

text \<open>A template: the packet length, and everything but the three stamped payload fields.\<close>

lemma packet_stamp:
  assumes "42 \<le> length pkt"
  shows "packet_payload (set_timestampA t (set_seq sq pkt)) =
           (packet_payload pkt)\<lparr>pl_seq := sq, tx_timestampA := t\<rparr>"
    and "length (set_timestampA t (set_seq sq pkt)) = length pkt"
  using assms
  by (simp_all add: packet_payload_def custom_of_bytes_def set_timestampA_def set_seq_def PAYLOAD_OFF_def
      get_bytes_drop bytes_simps)

lemma packet_queue:
  assumes "42 \<le> length pkt"
  shows "packet_payload (set_tx_queue q pkt) = (packet_payload pkt)\<lparr>tx_queue := q\<rparr>"
    and "length (set_tx_queue q pkt) = length pkt"
  using assms
  by (simp_all add: packet_payload_def custom_of_bytes_def set_tx_queue_def PAYLOAD_OFF_def
      get_bytes_drop bytes_simps)

text \<open>The stamps stay inside the payload.\<close>

lemma packet_stamp_header:
  assumes "42 \<le> length pkt" and "off + n \<le> PAYLOAD_OFF"
  shows "get_bytes off n (set_timestampA t (set_seq sq pkt)) = get_bytes off n pkt"
    and "get_bytes off n (set_tx_queue q pkt) = get_bytes off n pkt"
  using assms
  by (simp_all add: set_timestampA_def set_seq_def set_tx_queue_def PAYLOAD_OFF_def bytes_simps)

lemma replicate_18: "replicate 18 x = [x, x, x, x, x, x, x, x, x, x, x, x, x, x, x, x, x, x]"
  by (simp add: numeral_eq_Suc)

lemma replicate_6: "replicate 6 x = [x, x, x, x, x, x]"
  by (simp add: numeral_eq_Suc)

lemma length_setup [simp]:
  assumes "txrx_cfg_ok c"
  shows "length (setup_tsn_vlan_packet c) = unat (packet_size (opts c))"
  using assms
  by (simp add: setup_tsn_vlan_packet_def Let_def txrx_cfg_ok_def txrx_opt_ok_def src_mac_addr_def)

lemma cfg_packet_size: "txrx_cfg_ok c \<Longrightarrow> 64 \<le> unat (packet_size (opts c)) \<and> unat (packet_size (opts c)) \<le> 1500"
  by (simp add: txrx_cfg_ok_def txrx_opt_ok_def)

lemma setup_layout:
  assumes "txrx_cfg_ok c"
  shows "setup_tsn_vlan_packet c =
           dst_mac_addr c @ src_mac_addr @ [0x81, 0x00, vlan_prio (opts c), 3, 0xb6, 0x2c] @
           replicate (unat (packet_size (opts c)) - 18) 0xab"
proof -
  define n where "n = unat (packet_size (opts c)) - 18"
  then have n: "unat (packet_size (opts c)) = 18 + n"
    using cfg_packet_size [OF assms] by simp
  define R where "R = replicate n (0xab :: u8)"
  define X where "X = dst_mac_addr c @ src_mac_addr"
  have len: "length (dst_mac_addr c) = 6" "length src_mac_addr = 6" "length X = 12"
    using assms by (simp_all add: txrx_cfg_ok_def src_mac_addr_def X_def)
  let ?f = "0xab :: u8" and ?p = "vlan_prio (opts c)"
  have r: "replicate (18 + n) ?f = replicate 6 ?f @ replicate 6 ?f @ [?f, ?f] @ [?f] @ [?f] @ [?f, ?f] @ R"
    unfolding R_def by (simp add: replicate_add replicate_18 replicate_6)
  have p12: "put_bytes 0 (dst_mac_addr c) (put_bytes 6 src_mac_addr (replicate 6 ?f @ replicate 6 ?f @ T)) = X @ T" for T
    using put_bytes_at [of "replicate 6 ?f" 6 "replicate 6 ?f" src_mac_addr T]
      put_bytes_at [of "[]" 0 "replicate 6 ?f" "dst_mac_addr c" "src_mac_addr @ T"] len
    by (simp add: X_def)
  have p3: "put_bytes 12 v (X @ [?f, ?f] @ T) = X @ v @ T" if "length v = 2" for v T
    by (rule put_bytes_at) (use len that in simp_all)
  have p4: "put_bytes 15 [i] (X @ v @ [?f] @ [?f] @ T) = X @ v @ [?f] @ [i] @ T" if "length v = 2" for i v T
    using put_bytes_at [of "X @ v @ [?f]" 15 "[?f]" "[i]" T] len that by simp
  have p5: "put_bytes 14 [i] (X @ v @ [?f] @ T) = X @ v @ [i] @ T" if "length v = 2" for i v T
    using put_bytes_at [of "X @ v" 14 "[?f]" "[i]" T] len that by simp
  have p6: "put_bytes 16 w (X @ v @ [i] @ [j] @ u @ R) = X @ v @ [i] @ [j] @ w @ R"
    if "length v = 2" "length w = 2" "length u = 2" for i j v w u
    using put_bytes_at [of "X @ v @ [i] @ [j]" 16 u w R] len that by simp
  have "setup_tsn_vlan_packet c = X @ [0x81, 0x00] @ [?p] @ [VLAN_ID] @ [0xb6, 0x2c] @ R"
    unfolding setup_tsn_vlan_packet_def Let_def n r htons_values
    by (simp only: take_all len p12 p3 p4 p5 p6 order_refl list.size One_nat_def Suc_1 add_0 add_Suc)
  then show ?thesis
    by (simp add: X_def R_def VLAN_ID_def n_def)
qed

lemma setup_types:
  assumes "txrx_cfg_ok c"
  shows "get_bytes 12 2 (setup_tsn_vlan_packet c) = [0x81, 0x00]"
    and "get_bytes 16 2 (setup_tsn_vlan_packet c) = [0xb6, 0x2c]"
  using assms by (simp_all add: setup_layout get_bytes_def src_mac_addr_def txrx_cfg_ok_def)

section \<open>Properties\<close>

text \<open>
  The layout of the template. With options from the command line the packet has the
  requested size and starts with the destination and source addresses, the VLAN tag 0x8100 with
  the priority byte and VLAN 3, and the type 0xb62c; the rest is the filler 0xab. No store goes
  outside the buffer.
\<close>

theorem packet_layout:
  assumes "txrx_cfg_ok c"
  shows "setup_tsn_vlan_packet c =
           dst_mac_addr c @ src_mac_addr @ [0x81, 0x00, vlan_prio (opts c), 3, 0xb6, 0x2c] @
           replicate (unat (packet_size (opts c)) - 18) 0xab"
  using assms by (rule setup_layout)

theorem packet_layout_witness:
  "setup_tsn_vlan_packet txrx_defaults =
     [0x22, 0xbb, 0x22, 0xbb, 0x22, 0xbb] @ src_mac_addr @ [0x81, 0x00, 0, 3, 0xb6, 0x2c] @ replicate 46 0xab"
  using packet_layout [OF txrx_defaults_ok] by (simp add: txrx_defaults_def)

end
