(* ===== verification/Txrx_Afpkt.thy ===== *)
theory Txrx_Afpkt
  imports Txrx_Packet
begin

text \<open>
  \<^verbatim>\<open>src/txrx-afpkt.c\<close>: the AF_PACKET transmitter and receiver of \<^verbatim>\<open>txrx-tsn\<close>. The loops take what
  the kernel answers in each iteration: signals, the results of sleeping, sending and waiting,
  the clock, and the control messages of a received message. A control message is its level, its
  type and its data seen as an array of \<^verbatim>\<open>struct timespec\<close>; reading outside that array is the
  result \<open>None\<close>. Messages on the standard error are left out.
\<close>

section \<open>Time stamps of control messages\<close>

record cmsg =
  cmsg_level :: cint
  cmsg_type :: cint
  cmsg_ts :: "timespec list"

definition SOL_SOCKET :: cint where "SOL_SOCKET = 1"
definition SO_TIMESTAMPNS :: cint where "SO_TIMESTAMPNS = 35"
definition SO_TIMESTAMPING :: cint where "SO_TIMESTAMPING = 37"

text \<open>The loop over the control messages: the last one that carries a time stamp.\<close>

fun find_ts :: "cmsg list \<Rightarrow> timespec list option \<Rightarrow> timespec list option" where
  "find_ts [] ts = ts"
| "find_ts (m # ms) ts =
     (if cmsg_level m \<noteq> SOL_SOCKET then find_ts ms ts
      else if cmsg_type m = SO_TIMESTAMPNS \<or> cmsg_type m = SO_TIMESTAMPING
      then find_ts ms (Some (cmsg_ts m))
      else find_ts ms ts)"

definition get_timestamp :: "cmsg list \<Rightarrow> u64 option" where
  "get_timestamp msgs =
     (case find_ts msgs None of
        None \<Rightarrow> Some 0
      | Some ts \<Rightarrow>
          if 2 < length ts
          then Some (word_of_int (tv_sec (ts ! 2) * NSEC_PER_SEC + tv_nsec (ts ! 2)))
          else None)"

definition extract_ts_from_cmsg :: "cint \<Rightarrow> cmsg list \<Rightarrow> u64 option" where
  "extract_ts_from_cmsg recv_ret msgs = (if recv_ret \<le> 0 then Some 0 else get_timestamp msgs)"

section \<open>Opening the sockets\<close>

text \<open>The calls that change the kernel's view of a socket, in the order they are made.\<close>

datatype sk_call =
    Socket fd
  | Set_priority fd u32
  | Set_hwtstamp fd string
  | Set_timestamping fd
  | Set_txtime fd
  | Get_ifindex fd string
  | Set_rcvbuf fd nat
  | Bind fd u32 u16
  | Add_membership fd u32 bytes
  | Close_sock fd

record tx_answers =
  tx_socket :: fd
  tx_prio :: cint
  tx_ioctl :: cint
  tx_timestamping :: cint
  tx_txtime :: cint

text \<open>The link-layer address all packets are sent to; \<^verbatim>\<open>sll_addr\<close> has eight bytes.\<close>

record sockaddr_ll =
  sll_family :: u16
  sll_protocol :: u16
  sll_ifindex :: u32
  sll_halen :: u8
  sll_addr :: bytes

text \<open>
  \<^verbatim>\<open>init_tx_socket\<close>: an exit with its message, or the descriptor and the address with the calls
  made. The calls made before an exit are listed too; none of them closes the socket.
\<close>

definition exit_error :: "string \<Rightarrow> string" where
  "exit_error s = ''Error: '' @ s @ ''\<newline>''"

definition ifr_name :: "string \<Rightarrow> string" where
  "ifr_name name = take 15 name"

definition init_tx_socket ::
  "txrx_cfg \<Rightarrow> sockaddr_ll \<Rightarrow> string \<Rightarrow> tx_answers
     \<Rightarrow> (string \<times> sk_call list) + (fd \<times> sockaddr_ll \<times> sk_call list)" where
  "init_tx_socket c sk_addr strerror a =
     (let sock = tx_socket a;
          addr = sk_addr\<lparr>sll_ifindex := ifindex (opts c),
                         sll_addr := put_bytes 0 (take 6 (dst_mac_addr c)) (sll_addr sk_addr)\<rparr>;
          name = ifr_name (case ifname (opts c) of Some n \<Rightarrow> n | None \<Rightarrow> []);
          t1 = [Socket sock, Set_priority sock (socket_prio (opts c))];
          t2 = t1 @ [Set_hwtstamp sock name];
          t3 = t2 @ [Set_timestamping sock]
      in if sock < 0 then Inl (exit_error ''socket creation failed'', [])
         else if tx_prio a < 0 then Inl (exit_error ''setsockopt() failed to set priority'', t1)
         else if tx_ioctl a < 0 then Inl (''ioctl: '' @ strerror @ ''\<newline>'', t2)
         else if tx_timestamping a < 0 then Inl (exit_error ''setsockopt SO_TIMESTAMPING'', t3)
         else if enable_txtime (opts c) \<noteq> 0 \<and> tx_txtime a \<noteq> 0
         then Inl (exit_error ''setsockopt SO_TXTIME'', t3 @ [Set_txtime sock])
         else Inr (sock, addr, t3 @ (if enable_txtime (opts c) \<noteq> 0 then [Set_txtime sock] else [])))"

record rx_answers =
  rx_socket :: fd
  rx_ifindex_ret :: cint
  rx_ifindex :: u32
  rx_rcvbuf :: cint
  rx_bind :: cint
  rx_membership :: cint
  rx_ioctl :: cint
  rx_timestamping :: cint

definition RCVBUF_SIZE :: nat where "RCVBUF_SIZE = 1500 * 10000"

text \<open>
  \<^verbatim>\<open>init_rx_socket\<close>: \<open>Inl\<close> an exit; \<open>Inr (ret, sock, calls)\<close> the return value, what \<^verbatim>\<open>*sock\<close> holds
  (\<open>None\<close> when the pointer is NULL) and the calls made.
\<close>

definition init_rx_socket ::
  "u16 \<Rightarrow> bool \<Rightarrow> string \<Rightarrow> bytes \<Rightarrow> string \<Rightarrow> rx_answers
     \<Rightarrow> (string \<times> sk_call list) + (cint \<times> fd option \<times> sk_call list)" where
  "init_rx_socket etype sock_given name mac strerror a =
     (let rsock = rx_socket a;
          t1 = [Socket rsock, Get_ifindex rsock (ifr_name name)];
          t2 = t1 @ [Set_rcvbuf rsock RCVBUF_SIZE, Bind rsock (rx_ifindex a) (htons etype)];
          t3 = t2 @ (if hd mac \<noteq> 0 then [Add_membership rsock (rx_ifindex a) (take 6 mac)] else []);
          t4 = t3 @ [Set_hwtstamp rsock (ifr_name name)];
          t5 = t4 @ [Set_timestamping rsock]
      in if \<not> sock_given then Inr (- 1, None, [])
         else if rsock < 0 then Inr (- 1, Some (- 1), [])
         else if rx_ifindex_ret a < 0 then Inr (- 1, Some (- 1), t1 @ [Close_sock rsock])
         else if rx_bind a \<noteq> 0 then Inr (- 1, Some (- 1), t2 @ [Close_sock rsock])
         else if hd mac \<noteq> 0 \<and> rx_membership a < 0 then Inr (- 1, Some (- 1), t3 @ [Close_sock rsock])
         else if rx_ioctl a < 0 then Inl (''ioctl: '' @ strerror @ ''\<newline>'', t4)
         else if rx_timestamping a < 0 then Inl (exit_error ''setsockopt SO_TIMESTAMPING'', t5)
         else Inr (0, Some rsock, t5))"

section \<open>The sending threads\<close>

datatype afp_stop = Afp_exit string | Afp_oob

record afp_in =
  in_sigs :: "cint list"
  in_sleep :: cint
  in_now :: timespec
  in_send :: cint
  in_errno :: string
  in_select :: cint
  in_recv :: cint
  in_cmsgs :: "cmsg list"

record afp_st =
  f_halt :: cint
  f_count :: i32
  f_seq :: u32
  f_ts :: u64
  f_pkt :: bytes
  f_wakes :: "timespec list"
  f_sent :: "bytes list"
  f_txtimes :: "u64 list"
  f_out :: "string list"
  f_closed :: "fd list"

definition afpkt_sigint_handler :: "cint \<Rightarrow> cint \<Rightarrow> cint" where
  "afpkt_sigint_handler signum halt = signum"

definition afp_signals :: "cint list \<Rightarrow> afp_st \<Rightarrow> afp_st" where
  "afp_signals sigs s = s\<lparr>f_halt := fold afpkt_sigint_handler sigs (f_halt s)\<rparr>"

text \<open>The first deadline of the plain thread: two seconds after the start of the current one.\<close>

definition send_start_ts :: "txrx_cfg \<Rightarrow> timespec \<Rightarrow> u64" where
  "send_start_ts c now = get_time_sec now + 2 * 1000000000 + ucast (offset_ns (opts c))"

definition afp_step :: "txrx_cfg \<Rightarrow> u64" where
  "afp_step c = scast (interval_ns (opts c))"

definition afp_init :: "txrx_cfg \<Rightarrow> u64 \<Rightarrow> cint \<Rightarrow> afp_st" where
  "afp_init c start halt =
     \<lparr>f_halt = halt, f_count = frames_to_send (opts c), f_seq = 1, f_ts = start,
      f_pkt = set_tx_queue (socket_prio (opts c)) (setup_tsn_vlan_packet c),
      f_wakes = [], f_sent = [], f_txtimes = [], f_out = [], f_closed = []\<rparr>"

text \<open>What is handed to the kernel: the packet without its first 14 bytes.\<close>

definition afp_data :: "txrx_cfg \<Rightarrow> bytes \<Rightarrow> bytes" where
  "afp_data c pkt = get_bytes 14 (unat (packet_size (opts c)) - 14) pkt"

text \<open>The packet of an iteration: sequence number and time written over the template.\<close>

definition afp_stamp :: "u64 \<Rightarrow> afp_st \<Rightarrow> afp_st" where
  "afp_stamp tsA s = s\<lparr>f_pkt := set_timestampA tsA (set_seq (f_seq s) (f_pkt s))\<rparr>"

definition afp_next :: "txrx_cfg \<Rightarrow> afp_st \<Rightarrow> afp_st" where
  "afp_next c s = s\<lparr>f_ts := f_ts s + afp_step c, f_count := f_count s - 1, f_seq := f_seq s + 1\<rparr>"

text \<open>The report after a send: the hardware time stamp from the error queue, or 0.\<close>

definition afp_report :: "txrx_cfg \<Rightarrow> afp_in \<Rightarrow> u64 \<Rightarrow> afp_st \<Rightarrow> (afp_stop, afp_st) run" where
  "afp_report c i tsA s =
     (let res = (if enable_hwts (opts c) \<noteq> 0 then in_select i else 0);
          no = show_nat (unat (f_seq s - 1));
          line = (\<lambda>l. if txrx_verbose c \<noteq> 0 then [l] else [])
      in if res > 0 then
           (case extract_ts_from_cmsg (in_recv i) (in_cmsgs i) of
              None \<Rightarrow> Exited Afp_oob s
            | Some tsB \<Rightarrow>
                Running (s\<lparr>f_out := f_out s @
                  line (no @ tab @ show_nat (unat tsA) @ tab @ show_nat (unat tsB) @ ''\<newline>'')\<rparr>))
         else Running (s\<lparr>f_out := f_out s @ line (no @ '' '' @ show_nat (unat tsA) @ '' 0\<newline>'')\<rparr>))"

definition afp_body :: "txrx_cfg \<Rightarrow> afp_in \<Rightarrow> afp_st \<Rightarrow> (afp_stop, afp_st) run" where
  "afp_body c i s0 =
     (let s = afp_signals (in_sigs i) s0;
          s1 = s\<lparr>f_wakes := f_wakes s @ [ts_of_u64 (f_ts s)]\<rparr>;
          tsA = get_time_nanosec (in_now i);
          s2 = afp_stamp tsA s1;
          s3 = s2\<lparr>f_sent := f_sent s2 @ [afp_data c (f_pkt s2)]\<rparr>
      in if \<not> (f_count s \<noteq> 0 \<and> f_halt s = 0) then Done s
         else if in_sleep i \<noteq> 0 then Done s1
         else if in_send i < 0 then Exited (Afp_exit (exit_error ''sendto() failed'')) s3
         else afp_report c i tsA (afp_next c s3))"

definition close_after :: "fd \<Rightarrow> (afp_stop, afp_st) run \<Rightarrow> (afp_stop, afp_st) run" where
  "close_after sock r =
     (case r of Done s \<Rightarrow> Done (s\<lparr>f_closed := f_closed s @ [sock]\<rparr>) | _ \<Rightarrow> r)"

definition afpkt_send_thread ::
  "txrx_cfg \<Rightarrow> fd \<Rightarrow> timespec \<Rightarrow> cint \<Rightarrow> afp_in list \<Rightarrow> (afp_stop, afp_st) run" where
  "afpkt_send_thread c sock now halt is =
     close_after sock (iterate (afp_body c) is (afp_init c (send_start_ts c now) halt))"

text \<open>The thread with launch times: it wakes early and hands the kernel the time of each packet.\<close>

definition afp_body_etf :: "txrx_cfg \<Rightarrow> afp_in \<Rightarrow> afp_st \<Rightarrow> (afp_stop, afp_st) run" where
  "afp_body_etf c i s0 =
     (let s = afp_signals (in_sigs i) s0;
          s1 = s\<lparr>f_wakes := f_wakes s @ [ts_of_u64 (f_ts s)]\<rparr>;
          tsA = get_time_nanosec (in_now i);
          s2 = afp_stamp tsA s1;
          s3 = s2\<lparr>f_txtimes := f_txtimes s2 @ [f_ts s2 + ucast (early_offset_ns (opts c))],
                 f_sent := f_sent s2 @ [afp_data c (f_pkt s2)],
                 f_out := f_out s2 @
                   (if in_send i < 1 then [''sendmsg failed: '' @ in_errno i] else [])\<rparr>
      in if \<not> (f_count s \<noteq> 0 \<and> f_halt s = 0) then Done s
         else if in_sleep i \<noteq> 0 then Done s1
         else afp_report c i tsA (afp_next c s3))"

definition afpkt_send_thread_etf ::
  "txrx_cfg \<Rightarrow> fd \<Rightarrow> timespec \<Rightarrow> cint \<Rightarrow> afp_in list \<Rightarrow> (afp_stop, afp_st) run" where
  "afpkt_send_thread_etf c sock now halt is =
     close_after sock
       (iterate (afp_body_etf c) is
         (afp_init c (send_start_ts c now - ucast (early_offset_ns (opts c))) halt))"

section \<open>The receiver\<close>

definition MSG_BUFLEN :: nat where "MSG_BUFLEN = 1500"

record recv_in =
  rv_data :: "bytes option"
  rv_cmsgs :: "cmsg list"
  rv_now :: timespec
  rv_junk :: bytes

record recv_res =
  rr_ret :: cint
  rr_line :: "string option"
  rr_seq :: u32

text \<open>
  One call of \<^verbatim>\<open>afpkt_recv_pkt\<close>: at most 128 bytes go into an uninitialised buffer (\<open>rv_junk\<close>);
  the payload is looked for at offset 14, the kernel having removed the VLAN tag. The result is
  \<open>None\<close> when a time stamp is read outside its control message.
\<close>

definition recv_payload :: "recv_in \<Rightarrow> bytes \<Rightarrow> custom_payload" where
  "recv_payload i data =
     custom_of_bytes (drop (PAYLOAD_OFF - 4) (put_bytes 0 (take 128 data) (rv_junk i)))"

definition afpkt_recv_pkt :: "txrx_cfg \<Rightarrow> recv_in \<Rightarrow> u32 \<Rightarrow> recv_res option" where
  "afpkt_recv_pkt c i glob_rx_seq =
     (case rv_data i of
        None \<Rightarrow> Some \<lparr>rr_ret = 0, rr_line = None, rr_seq = glob_rx_seq\<rparr>
      | Some data \<Rightarrow>
          if data = [] then Some \<lparr>rr_ret = 0, rr_line = None, rr_seq = glob_rx_seq\<rparr>
          else
            let tsD = get_time_nanosec (rv_now i);
                payload = recv_payload i data
            in case (if enable_hwts (opts c) \<noteq> 0 then get_timestamp (rv_cmsgs i) else Some 0) of
                 None \<Rightarrow> None
               | Some tsC \<Rightarrow>
                   if tx_queue payload > 8 \<or> pl_seq payload > 50 * 1000 * 1000
                   then Some \<lparr>rr_ret = - 1, rr_line = None, rr_seq = glob_rx_seq\<rparr>
                   else Some \<lparr>rr_ret = 0,
                     rr_line = Some
                       (show_int (sint (tsD - tx_timestampA payload)) @ tab @
                        show_int (sint (pl_seq payload)) @ tab @
                        show_int (sint (tx_queue payload)) @ tab @
                        show_int (sint (tx_timestampA payload)) @ tab @
                        show_int (sint tsC) @ tab @ show_int (sint tsD) @ ''\<newline>''),
                     rr_seq = pl_seq payload\<rparr>)"

section \<open>Lemmas on the sending threads\<close>

lemma afp_signals_simps [simp]:
  "f_count (afp_signals g s) = f_count s" "f_seq (afp_signals g s) = f_seq s" "f_ts (afp_signals g s) = f_ts s"
  "f_pkt (afp_signals g s) = f_pkt s" "f_wakes (afp_signals g s) = f_wakes s" "f_sent (afp_signals g s) = f_sent s"
  "f_txtimes (afp_signals g s) = f_txtimes s" "f_closed (afp_signals g s) = f_closed s"
  "afp_signals [] s = s"
  by (simp_all add: afp_signals_def)

lemma afp_out_self: "\<exists>out. s = s\<lparr>f_out := out\<rparr>"
  by (rule exI [of _ "f_out s"]) simp

lemma afp_report_running:
  "afp_report c i tsA s = Running s' \<Longrightarrow> \<exists>out. s' = s\<lparr>f_out := out\<rparr>"
  by (auto simp: afp_report_def Let_def afp_out_self split: if_splits option.splits)

text \<open>A completed iteration, for either thread.\<close>

definition afp_iteration :: "txrx_cfg \<Rightarrow> afp_in \<Rightarrow> afp_st \<Rightarrow> afp_st \<Rightarrow> bool" where
  "afp_iteration c i s s' \<longleftrightarrow>
     f_count s \<noteq> 0 \<and> f_count s' = f_count s - 1 \<and> f_seq s' = f_seq s + 1 \<and>
     f_ts s' = f_ts s + afp_step c \<and> f_wakes s' = f_wakes s @ [ts_of_u64 (f_ts s)] \<and>
     f_pkt s' = set_timestampA (get_time_nanosec (in_now i)) (set_seq (f_seq s) (f_pkt s)) \<and>
     f_sent s' = f_sent s @ [afp_data c (f_pkt s')] \<and> f_closed s' = f_closed s"

lemmas afp_defs = afp_iteration_def afp_next_def afp_stamp_def Let_def

lemma afp_body_running: "afp_body c i s = Running s' \<Longrightarrow> afp_iteration c i s s'"
  by (auto simp: afp_body_def afp_defs split: if_splits dest!: afp_report_running)

lemma afp_body_etf_running:
  "afp_body_etf c i s = Running s' \<Longrightarrow>
     afp_iteration c i s s' \<and> f_txtimes s' = f_txtimes s @ [f_ts s + ucast (early_offset_ns (opts c))]"
  by (auto simp: afp_body_etf_def afp_defs split: if_splits dest!: afp_report_running)

interpretation afp_cycle: cyclic_loop "afp_body c" "\<lambda>_. True" f_ts "afp_step c" f_wakes ts_of_u64 for c
  by unfold_locales (use afp_body_running in \<open>auto simp: afp_iteration_def\<close>)

interpretation etf_cycle: cyclic_loop "afp_body_etf c" "\<lambda>_. True" f_ts "afp_step c" f_wakes ts_of_u64 for c
  by unfold_locales (use afp_body_etf_running in \<open>auto simp: afp_iteration_def\<close>)

interpretation etf_launch: cyclic_loop "afp_body_etf c" "\<lambda>_. True" f_ts "afp_step c" f_txtimes
    "\<lambda>t. t + ucast (early_offset_ns (opts c))" for c
  by unfold_locales (use afp_body_etf_running in \<open>auto simp: afp_iteration_def\<close>)

text \<open>
  An iteration in which nothing goes wrong, and the payloads of such iterations: one per
  iteration, numbered from \<open>sq\<close>, with the time read in it.
\<close>

definition quiet :: "txrx_cfg \<Rightarrow> afp_in \<Rightarrow> bool" where
  "quiet c i \<longleftrightarrow> in_sigs i = [] \<and> in_sleep i = 0 \<and> 0 \<le> in_send i \<and>
     (enable_hwts (opts c) = 0 \<or> in_select i \<le> 0)"

fun stamped :: "custom_payload \<Rightarrow> u32 \<Rightarrow> afp_in list \<Rightarrow> custom_payload list" where
  "stamped p sq [] = []"
| "stamped p sq (i # is) =
     p\<lparr>pl_seq := sq, tx_timestampA := get_time_nanosec (in_now i)\<rparr> # stamped p (sq + 1) is"

definition afp_payload :: "bytes \<Rightarrow> custom_payload" where
  "afp_payload data = custom_of_bytes (drop 4 data)"

lemma afp_payload_data:
  assumes "42 \<le> unat (packet_size (opts c))"
  shows "afp_payload (afp_data c pkt) = packet_payload pkt"
proof -
  have get: "get_bytes off n (afp_data c pkt) = get_bytes (14 + off) n pkt" if "off + n \<le> 28" for off n
  proof -
    have "off + n \<le> unat (packet_size (opts c)) - 14"
      using assms that by linarith
    then show ?thesis
      by (simp add: get_bytes_def afp_data_def drop_take min_def add.commute)
  qed
  show ?thesis
    by (simp add: afp_payload_def packet_payload_def custom_of_bytes_def PAYLOAD_OFF_def get_bytes_drop get)
qed

lemma stamped_overwrites: "stamped (p\<lparr>pl_seq := a, tx_timestampA := t\<rparr>) sq is = stamped p sq is"
  by (induction p sq "is" rule: stamped.induct) auto

text \<open>The contract both sending threads meet, and what follows from it.\<close>

locale sending_loop =
  fixes body :: "afp_in \<Rightarrow> afp_st \<Rightarrow> (afp_stop, afp_st) run"
    and c :: txrx_cfg
  assumes iteration: "body i s = Running s' \<Longrightarrow> afp_iteration c i s s'"
    and progress: "quiet c i \<Longrightarrow> f_halt s = 0 \<Longrightarrow> f_count s \<noteq> 0 \<Longrightarrow> \<exists>s'. body i s = Running s' \<and> f_halt s' = 0"
    and finished: "f_count s = 0 \<Longrightarrow> body i s = Done (afp_signals (in_sigs i) s)"
begin

lemma sent_payloads:
  assumes "42 \<le> unat (packet_size (opts c))"
  shows "iterate body is s = Running s' \<Longrightarrow> 42 \<le> length (f_pkt s) \<Longrightarrow>
     map afp_payload (f_sent s') = map afp_payload (f_sent s) @ stamped (packet_payload (f_pkt s)) (f_seq s) is"
proof (induction "is" arbitrary: s)
  case Nil
  then show ?case by simp
next
  case (Cons i "is")
  then obtain t where t: "body i s = Running t" and it: "iterate body is t = Running s'"
    by (auto split: run.splits)
  note st = iteration [OF t, unfolded afp_iteration_def]
  have "42 \<le> length (f_pkt t)"
    using st Cons.prems(2) by (simp add: packet_stamp)
  from Cons.IH [OF it this] show ?case
    using st Cons.prems(2) by (simp add: afp_payload_data [OF assms] packet_stamp stamped_overwrites)
qed

lemma sent_lengths:
  assumes "42 \<le> unat (packet_size (opts c))"
  shows "iterate body is s = Running s' \<Longrightarrow> length (f_pkt s) = unat (packet_size (opts c)) \<Longrightarrow>
     \<exists>ms. f_sent s' = f_sent s @ ms \<and> list_all (\<lambda>m. length m = unat (packet_size (opts c)) - 14) ms"
proof (induction "is" arbitrary: s)
  case Nil
  then show ?case by simp
next
  case (Cons i "is")
  then obtain t where t: "body i s = Running t" and it: "iterate body is t = Running s'"
    by (auto split: run.splits)
  note st = iteration [OF t, unfolded afp_iteration_def]
  have len: "length (f_pkt t) = unat (packet_size (opts c))"
    using st Cons.prems(2) assms by (simp add: packet_stamp)
  then have "length (afp_data c (f_pkt t)) = unat (packet_size (opts c)) - 14"
    using assms by (simp add: afp_data_def)
  with Cons.IH [OF it len] st show ?case by auto
qed

lemma sends_remaining:
  "f_halt s = 0 \<Longrightarrow> length is = unat (f_count s) \<Longrightarrow> \<forall>i \<in> set is. quiet c i \<Longrightarrow>
     \<exists>s'. iterate body is s = Running s' \<and> f_count s' = 0 \<and> f_closed s' = f_closed s"
proof (induction "is" arbitrary: s)
  case Nil
  then show ?case by (simp add: unat_eq_0)
next
  case (Cons i "is")
  then have nz: "f_count s \<noteq> 0" by auto
  then obtain t where t: "body i s = Running t" "f_halt t = 0"
    using progress [of i s] Cons.prems by auto
  have "unat (f_count s - 1) = unat (f_count s) - 1"
    using nz by (simp add: unat_minus_one)
  then have "length is = unat (f_count t)"
    using iteration [OF t(1)] Cons.prems(2) by (simp add: afp_iteration_def)
  with Cons.IH [of t] t Cons.prems iteration [OF t(1)] show ?case
    by (auto simp: afp_iteration_def)
qed

lemma sends_all:
  assumes "f_halt s = 0" and "unat (f_count s) < length is" and "\<forall>i \<in> set is. quiet c i"
    and "42 \<le> unat (packet_size (opts c))" and "length (f_pkt s) = unat (packet_size (opts c))" and "f_sent s = []"
  shows "\<exists>s'. iterate body is s = Done s' \<and> f_closed s' = f_closed s \<and>
     list_all (\<lambda>m. length m = unat (packet_size (opts c)) - 14) (f_sent s') \<and>
     map afp_payload (f_sent s') = stamped (packet_payload (f_pkt s)) (f_seq s) (take (unat (f_count s)) is)"
proof -
  let ?n = "unat (f_count s)"
  have "\<exists>t. iterate body (take ?n is) s = Running t \<and> f_count t = 0 \<and> f_closed t = f_closed s"
    by (rule sends_remaining) (use assms in \<open>auto dest: in_set_takeD\<close>)
  then obtain t where run: "iterate body (take ?n is) s = Running t" and t: "f_count t = 0" "f_closed t = f_closed s"
    by blast
  obtain j js where rest: "drop ?n is = j # js"
    using assms(2) by (metis Cons_nth_drop_Suc)
  have "is = take ?n is @ j # js"
    using rest by (metis append_take_drop_id)
  then have "iterate body is s = Done (afp_signals (in_sigs j) t)"
    using iterate_append [of body "take ?n is" "j # js" s] run finished [OF t(1), of j] by simp
  moreover have "42 \<le> length (f_pkt s)"
    using assms(4,5) by simp
  ultimately show ?thesis
    using sent_payloads [OF assms(4) run] sent_lengths [OF assms(4) run assms(5)] t assms(6) by auto
qed

end

lemma quiet_report: "quiet c i \<Longrightarrow> \<exists>out. afp_report c i tsA s = Running (s\<lparr>f_out := out\<rparr>)"
  by (auto simp: quiet_def afp_report_def Let_def afp_out_self)

interpretation afp_sending: sending_loop "afp_body c" c for c
proof
  show "quiet c i \<Longrightarrow> f_halt s = 0 \<Longrightarrow> f_count s \<noteq> 0 \<Longrightarrow> \<exists>s'. afp_body c i s = Running s' \<and> f_halt s' = 0" for i s
    using quiet_report by (fastforce simp: afp_body_def afp_defs quiet_def)
qed (auto simp: afp_body_running, simp add: afp_body_def)

interpretation etf_sending: sending_loop "afp_body_etf c" c for c
proof
  show "quiet c i \<Longrightarrow> f_halt s = 0 \<Longrightarrow> f_count s \<noteq> 0 \<Longrightarrow> \<exists>s'. afp_body_etf c i s = Running s' \<and> f_halt s' = 0" for i s
    using quiet_report by (fastforce simp: afp_body_etf_def afp_defs quiet_def)
qed (auto simp: afp_body_etf_running, simp add: afp_body_etf_def)

lemma afp_init_pkt:
  assumes "txrx_cfg_ok c"
  shows "length (f_pkt (afp_init c start halt)) = unat (packet_size (opts c))"
    and "tx_queue (packet_payload (f_pkt (afp_init c start halt))) = socket_prio (opts c)"
  using packet_queue [of "setup_tsn_vlan_packet c" "socket_prio (opts c)"] cfg_packet_size [OF assms] assms
  by (simp_all add: afp_init_def)

section \<open>Lemmas on the receiver\<close>

text \<open>
  What the kernels on the two sides do to the data of a send: an Ethernet header of 12 address
  bytes and the VLAN type in front, and on reception the VLAN tag (the type and the first two
  bytes of the data) taken out again.
\<close>

definition vlan_path :: "(bytes \<Rightarrow> bytes) \<Rightarrow> bool" where
  "vlan_path path \<longleftrightarrow> (\<forall>d. length (path d) = 12 + (length d - 2) \<and> drop 12 (path d) = drop 2 d)"

lemma recv_payload_path:
  assumes "vlan_path path" and "28 \<le> length m" and "length (rv_junk i) = MSG_BUFLEN"
  shows "recv_payload i (path m) = afp_payload m"
proof -
  have len: "38 \<le> length (path m)" and body: "drop 12 (path m) = drop 2 m"
    using assms(1,2) by (auto simp: vlan_path_def)
  have "get_bytes (14 + off) n (put_bytes 0 (take 128 (path m)) (rv_junk i)) = get_bytes (4 + off) n m"
    if "off + n \<le> 24" for off n
  proof -
    have "get_bytes (14 + off) n (put_bytes 0 (take 128 (path m)) (rv_junk i)) = get_bytes (14 + off) n (path m)"
      using len that by (simp add: put_bytes_def get_bytes_append1 get_bytes_take)
    also have "\<dots> = get_bytes (2 + off) n (drop 12 (path m))"
      by (simp add: get_bytes_drop)
    also have "\<dots> = get_bytes (2 + (2 + off)) n m"
      by (simp only: body get_bytes_drop)
    finally show ?thesis by (simp only: add.assoc [symmetric]) simp
  qed
  from this [of 0 4] this [of 4 4] this [of 8 8] this [of 16 8] show ?thesis
    by (simp add: recv_payload_def afp_payload_def custom_of_bytes_def PAYLOAD_OFF_def get_bytes_drop)
qed

lemma find_ts_append: "find_ts (xs @ ys) ts = find_ts ys (find_ts xs ts)"
  by (induction xs arbitrary: ts) auto

lemma find_ts_other:
  "\<forall>m \<in> set ms. cmsg_level m \<noteq> SOL_SOCKET \<or> cmsg_type m \<notin> {SO_TIMESTAMPNS, SO_TIMESTAMPING} \<Longrightarrow> find_ts ms ts = ts"
  by (induction ms arbitrary: ts) auto

text \<open>The whole plain thread, undisturbed.\<close>

lemma afpkt_sends:
  assumes "txrx_cfg_ok c" and "\<forall>i \<in> set is. quiet c i" and "unat (frames_to_send (opts c)) < length is"
  shows "\<exists>s p. afpkt_send_thread c sock now 0 is = Done s \<and> f_closed s = [sock] \<and>
           tx_queue p = socket_prio (opts c) \<and>
           list_all (\<lambda>m. length m = unat (packet_size (opts c)) - 14) (f_sent s) \<and>
           map afp_payload (f_sent s) = stamped p 1 (take (unat (frames_to_send (opts c))) is)"
proof -
  let ?s0 = "afp_init c (send_start_ts c now) 0"
  have "\<exists>s. iterate (afp_body c) is ?s0 = Done s \<and> f_closed s = f_closed ?s0 \<and>
     list_all (\<lambda>m. length m = unat (packet_size (opts c)) - 14) (f_sent s) \<and>
     map afp_payload (f_sent s) = stamped (packet_payload (f_pkt ?s0)) (f_seq ?s0) (take (unat (f_count ?s0)) is)"
    by (rule afp_sending.sends_all)
      (use assms cfg_packet_size [OF assms(1)] afp_init_pkt [OF assms(1)] in \<open>auto simp: afp_init_def\<close>)
  then obtain s where s: "iterate (afp_body c) is ?s0 = Done s" "f_closed s = []"
    "list_all (\<lambda>m. length m = unat (packet_size (opts c)) - 14) (f_sent s)"
    "map afp_payload (f_sent s) = stamped (packet_payload (f_pkt ?s0)) 1 (take (unat (frames_to_send (opts c))) is)"
    by (auto simp: afp_init_def)
  have "afpkt_send_thread c sock now 0 is = Done (s\<lparr>f_closed := [sock]\<rparr>)"
    using s by (simp add: afpkt_send_thread_def close_after_def)
  with s afp_init_pkt(2) [OF assms(1)] show ?thesis
    by (intro exI [of _ "s\<lparr>f_closed := [sock]\<rparr>"] exI [of _ "packet_payload (f_pkt ?s0)"]) simp
qed

section \<open>Properties\<close>

definition ex_in :: "int \<Rightarrow> afp_in" where
  "ex_in ns = \<lparr>in_sigs = [], in_sleep = 0, in_now = Timespec 12 ns, in_send = 50, in_errno = [],
     in_select = 0, in_recv = 0, in_cmsgs = []\<rparr>"

definition ex_cfg :: txrx_cfg where
  "ex_cfg = txrx_defaults\<lparr>opts := (opts txrx_defaults)\<lparr>frames_to_send := 2, socket_prio := 3,
     vlan_prio := 96, x_opt := (x_opt (opts txrx_defaults))\<lparr>xo_queue := 3\<rparr>\<rparr>\<rparr>"

lemma ex_cfg_ok: "txrx_cfg_ok ex_cfg"
  by (simp add: txrx_cfg_ok_def txrx_opt_ok_def txrx_defaults_def ex_cfg_def)

text \<open>
  C13: undisturbed, the AF_PACKET sender transmits exactly the requested number of packets, then
  closes its socket and returns. The packets carry the sequence numbers 1, 2, 3, \<dots>, the
  socket priority as queue number and the time at which each was prepared.
\<close>

theorem afpkt_sends_all:
  assumes "txrx_cfg_ok c" and "\<forall>i \<in> set is. quiet c i" and "unat (frames_to_send (opts c)) < length is"
  shows "\<exists>s p. afpkt_send_thread c sock now 0 is = Done s \<and> f_closed s = [sock] \<and>
           tx_queue p = socket_prio (opts c) \<and>
           map afp_payload (f_sent s) = stamped p 1 (take (unat (frames_to_send (opts c))) is)"
  using afpkt_sends [OF assms] by blast

theorem afpkt_sends_all_witness:
  "\<exists>s p. afpkt_send_thread ex_cfg 4 (Timespec 10 5) 0 [ex_in 1, ex_in 2, ex_in 3] = Done s \<and> f_closed s = [4] \<and>
     tx_queue p = 3 \<and>
     map afp_payload (f_sent s) =
       [p\<lparr>pl_seq := 1, tx_timestampA := 12000000001\<rparr>, p\<lparr>pl_seq := 2, tx_timestampA := 12000000002\<rparr>]"
proof -
  have "\<exists>s p. afpkt_send_thread ex_cfg 4 (Timespec 10 5) 0 [ex_in 1, ex_in 2, ex_in 3] = Done s \<and> f_closed s = [4] \<and>
     tx_queue p = socket_prio (opts ex_cfg) \<and>
     map afp_payload (f_sent s) = stamped p 1 (take (unat (frames_to_send (opts ex_cfg))) [ex_in 1, ex_in 2, ex_in 3])"
    by (rule afpkt_sends_all [OF ex_cfg_ok]) (simp_all add: quiet_def ex_in_def ex_cfg_def)
  then show ?thesis
    by (simp add: ex_cfg_def ex_in_def get_time_nanosec_def NSEC_PER_SEC_def)
qed

text \<open>
  C19: the schedule has no drift. After any number of completed iterations the sender has slept
  until the deadlines base, base + cycle, base + 2 cycles, \<dots>, where the base is two seconds and
  the offset after the start of the second it was started in, whatever the sends took.
\<close>

theorem afpkt_deadlines:
  assumes "afpkt_send_thread c sock now halt is = Running s"
  shows "f_wakes s = map (\<lambda>k. ts_of_u64 (send_start_ts c now + of_nat k * afp_step c)) [0..<length is]"
proof -
  have "iterate (afp_body c) is (afp_init c (send_start_ts c now) halt) = Running s"
    using assms by (auto simp: afpkt_send_thread_def close_after_def split: run.splits)
  from afp_cycle.trace_all [OF TrueI this] show ?thesis by (simp add: afp_init_def)
qed

lemma ex_in_running:
  "\<exists>s. iterate (afp_body ex_cfg) [ex_in 1, ex_in 2] (afp_init ex_cfg t 0) = Running s"
  "\<exists>s. iterate (afp_body_etf ex_cfg) [ex_in 1, ex_in 2] (afp_init ex_cfg t 0) = Running s"
proof -
  have q: "\<forall>i \<in> set [ex_in 1, ex_in 2]. quiet ex_cfg i"
    by (simp add: quiet_def ex_in_def)
  have f: "f_halt (afp_init ex_cfg t 0) = 0" "length [ex_in 1, ex_in 2] = unat (f_count (afp_init ex_cfg t 0))"
    by (simp_all add: afp_init_def ex_cfg_def)
  show "\<exists>s. iterate (afp_body ex_cfg) [ex_in 1, ex_in 2] (afp_init ex_cfg t 0) = Running s"
    using afp_sending.sends_remaining [OF f q] by blast
  show "\<exists>s. iterate (afp_body_etf ex_cfg) [ex_in 1, ex_in 2] (afp_init ex_cfg t 0) = Running s"
    using etf_sending.sends_remaining [OF f q] by blast
qed

theorem afpkt_deadlines_witness:
  "\<exists>s. afpkt_send_thread ex_cfg 4 (Timespec 10 5) 0 [ex_in 1, ex_in 2] = Running s \<and>
     f_wakes s = [Timespec 12 0, Timespec 12 100000]"
proof -
  obtain s where s: "afpkt_send_thread ex_cfg 4 (Timespec 10 5) 0 [ex_in 1, ex_in 2] = Running s"
    using ex_in_running(1) [of "send_start_ts ex_cfg (Timespec 10 5)"]
    by (auto simp: afpkt_send_thread_def close_after_def simp del: iterate.simps)
  from afpkt_deadlines [OF s] s show ?thesis
    by (simp add: send_start_ts_def get_time_sec_def NSEC_PER_SEC_def ex_cfg_def txrx_defaults_def
        afp_step_def ts_of_u64_def)
qed

text \<open>
  C18: launch times. The sender with launch times asks the kernel to transmit packet k at
  base + k cycles, the very schedule of the plain sender, and wakes up the early offset before each.
\<close>

theorem afpkt_launch_times:
  assumes "afpkt_send_thread_etf c sock now halt is = Running s"
  shows "f_txtimes s = map (\<lambda>k. send_start_ts c now + of_nat k * afp_step c) [0..<length is] \<and>
         f_wakes s = map (\<lambda>t. ts_of_u64 (t - ucast (early_offset_ns (opts c)))) (f_txtimes s)"
proof -
  let ?e = "ucast (early_offset_ns (opts c)) :: u64"
  have it: "iterate (afp_body_etf c) is (afp_init c (send_start_ts c now - ?e) halt) = Running s"
    using assms by (auto simp: afpkt_send_thread_etf_def close_after_def split: run.splits)
  have "f_txtimes s = map (\<lambda>k. send_start_ts c now + of_nat k * afp_step c) [0..<length is]"
    using etf_launch.trace_all [OF TrueI it] by (simp add: afp_init_def algebra_simps)
  moreover have "f_wakes s = map (\<lambda>k. ts_of_u64 (send_start_ts c now - ?e + of_nat k * afp_step c)) [0..<length is]"
    using etf_cycle.trace_all [OF TrueI it] by (simp add: afp_init_def)
  ultimately show ?thesis by (simp add: algebra_simps)
qed

theorem afpkt_launch_times_witness:
  "\<exists>s. afpkt_send_thread_etf ex_cfg 4 (Timespec 10 5) 0 [ex_in 1, ex_in 2] = Running s \<and>
     f_txtimes s = [12000000000, 12000100000] \<and> f_wakes s = [Timespec 11 999900000, Timespec 12 0]"
proof -
  obtain s where s: "afpkt_send_thread_etf ex_cfg 4 (Timespec 10 5) 0 [ex_in 1, ex_in 2] = Running s"
    using ex_in_running(2) [of "send_start_ts ex_cfg (Timespec 10 5) - ucast (early_offset_ns (opts ex_cfg))"]
    by (auto simp: afpkt_send_thread_etf_def close_after_def simp del: iterate.simps)
  from afpkt_launch_times [OF s] s show ?thesis
    by (simp add: send_start_ts_def get_time_sec_def NSEC_PER_SEC_def ex_cfg_def txrx_defaults_def
        afp_step_def ts_of_u64_def)
qed

text \<open>
  C17: from one end to the other. A packet the sender transmits, carried by a path that adds the
  Ethernet header and removes the VLAN tag, is accepted by the receiver, which reports exactly
  the sequence number, the queue and the send time that were put in, and as latency the difference
  of the two times.
\<close>

theorem afpkt_end_to_end:
  assumes "txrx_cfg_ok c" and "afp_body c i s = Running s'"
    and "length (f_pkt s) = unat (packet_size (opts c))"
    and "tx_queue (packet_payload (f_pkt s)) = socket_prio (opts c)" and "unat (f_seq s) \<le> 50000000"
    and "vlan_path path" and "length junk = MSG_BUFLEN" and "enable_hwts (opts d) = 0"
  shows "\<exists>m. f_sent s' = f_sent s @ [m] \<and>
     afpkt_recv_pkt d \<lparr>rv_data = Some (path m), rv_cmsgs = ms, rv_now = now, rv_junk = junk\<rparr> g =
       Some \<lparr>rr_ret = 0,
             rr_line = Some
               (show_int (sint (get_time_nanosec now - get_time_nanosec (in_now i))) @ tab @
                show_int (sint (f_seq s)) @ tab @ show_int (sint (socket_prio (opts c))) @ tab @
                show_int (sint (get_time_nanosec (in_now i))) @ tab @ show_int 0 @ tab @
                show_int (sint (get_time_nanosec now)) @ ''\<newline>''),
             rr_seq = f_seq s\<rparr>"
proof -
  let ?m = "afp_data c (f_pkt s')"
  let ?i = "\<lparr>rv_data = Some (path ?m), rv_cmsgs = ms, rv_now = now, rv_junk = junk\<rparr>"
  note size = cfg_packet_size [OF assms(1), THEN conjunct1]
  have it: "f_sent s' = f_sent s @ [?m]"
    "f_pkt s' = set_timestampA (get_time_nanosec (in_now i)) (set_seq (f_seq s) (f_pkt s))"
    using afp_body_running [OF assms(2)] by (simp_all add: afp_iteration_def)
  have len: "length (f_pkt s') = unat (packet_size (opts c))" "28 \<le> length ?m"
    using it(2) size assms(3) by (simp_all add: packet_stamp afp_data_def get_bytes_def)
  have "recv_payload ?i (path ?m) = packet_payload (f_pkt s')"
    using recv_payload_path [OF assms(6) len(2), of ?i] afp_payload_data [of c "f_pkt s'"] size assms(7) by simp
  also have "\<dots> = (packet_payload (f_pkt s))\<lparr>pl_seq := f_seq s, tx_timestampA := get_time_nanosec (in_now i)\<rparr>"
    using it(2) size assms(3) by (simp add: packet_stamp)
  finally have rp: "recv_payload ?i (path ?m) = \<dots>" .
  have "length (path ?m) = 12 + (length ?m - 2)"
    using assms(6) unfolding vlan_path_def by blast
  then have ne: "path ?m \<noteq> []" by auto
  have "\<not> socket_prio (opts c) > 8" "\<not> f_seq s > 50 * 1000 * 1000"
    using assms(1,5) by (simp_all add: txrx_cfg_ok_def txrx_opt_ok_def word_less_nat_alt)
  then show ?thesis
    using ne rp assms(4,8) it(1) by (simp add: afpkt_recv_pkt_def Let_def)
qed

definition ex_path :: "bytes \<Rightarrow> bytes" where
  "ex_path d = replicate 12 0 @ drop 2 d"

theorem afpkt_end_to_end_witness:
  "\<exists>s' m. afp_body ex_cfg (ex_in 7) (afp_init ex_cfg 0 0) = Running s' \<and> f_sent s' = [m] \<and>
     afpkt_recv_pkt ex_cfg \<lparr>rv_data = Some (ex_path m), rv_cmsgs = [], rv_now = Timespec 12 9, rv_junk = zeros 1500\<rparr> 0 =
       Some \<lparr>rr_ret = 0,
             rr_line = Some (show_int 2 @ tab @ show_int 1 @ tab @ show_int 3 @ tab @ show_int 12000000007 @ tab @
                show_int 0 @ tab @ show_int 12000000009 @ ''\<newline>''),
             rr_seq = 1\<rparr>"
proof -
  have "\<exists>s'. afp_body ex_cfg (ex_in 7) (afp_init ex_cfg 0 0) = Running s' \<and> f_halt s' = 0"
    by (rule afp_sending.progress) (simp_all add: quiet_def ex_in_def afp_init_def ex_cfg_def)
  then obtain s' where s': "afp_body ex_cfg (ex_in 7) (afp_init ex_cfg 0 0) = Running s'" by blast
  have path: "vlan_path ex_path"
    by (simp add: vlan_path_def ex_path_def)
  show ?thesis
    using afpkt_end_to_end [OF ex_cfg_ok s' afp_init_pkt [OF ex_cfg_ok] _ path, of "zeros 1500" ex_cfg "[]"
        "Timespec 12 9" 0] s'
    by (simp add: MSG_BUFLEN_def) (simp add: afp_init_def ex_cfg_def txrx_defaults_def ex_in_def
        get_time_nanosec_def NSEC_PER_SEC_def)
qed

text \<open>
  Hardware time stamps. Of the control messages of a packet, the time reported is the third
  entry (the raw hardware clock) of the last \<^verbatim>\<open>SO_TIMESTAMPING\<close> message.
\<close>

theorem get_timestamp_hw:
  assumes "cmsg_level m = SOL_SOCKET" and "cmsg_type m = SO_TIMESTAMPING" and "cmsg_ts m = [t0, t1, t2]"
    and "\<forall>x \<in> set post. cmsg_level x \<noteq> SOL_SOCKET \<or> cmsg_type x \<notin> {SO_TIMESTAMPNS, SO_TIMESTAMPING}"
  shows "get_timestamp (pre @ m # post) = Some (word_of_int (ns_of t2))"
  using assms by (simp add: get_timestamp_def find_ts_append find_ts_other ns_of_def)

theorem get_timestamp_hw_witness:
  "get_timestamp ([] @ \<lparr>cmsg_level = 1, cmsg_type = 37, cmsg_ts = [Timespec 0 0, Timespec 0 0, Timespec 3 4]\<rparr> # [])
     = Some 3000000004"
  using get_timestamp_hw [of "\<lparr>cmsg_level = 1, cmsg_type = 37, cmsg_ts = [Timespec 0 0, Timespec 0 0, Timespec 3 4]\<rparr>"
      "Timespec 0 0" "Timespec 0 0" "Timespec 3 4" "[]" "[]"]
  by (simp add: SOL_SOCKET_def SO_TIMESTAMPING_def ns_of_def NSEC_PER_SEC_def)

text \<open>
  A \<^verbatim>\<open>SO_TIMESTAMPNS\<close> message carries a single \<^verbatim>\<open>struct timespec\<close>; the code takes its third
  entry all the same and reads outside the message.
\<close>

theorem get_timestamp_ns_out_of_bounds:
  assumes "cmsg_level m = SOL_SOCKET" and "cmsg_type m = SO_TIMESTAMPNS" and "cmsg_ts m = [t0]"
  shows "get_timestamp (pre @ [m]) = None"
  using assms by (simp add: get_timestamp_def find_ts_append)

theorem get_timestamp_ns_out_of_bounds_witness:
  "get_timestamp ([] @ [\<lparr>cmsg_level = 1, cmsg_type = 35, cmsg_ts = [Timespec 3 4]\<rparr>]) = None"
  by (rule get_timestamp_ns_out_of_bounds) (simp_all add: SOL_SOCKET_def SO_TIMESTAMPNS_def)

text \<open>
  \<^verbatim>\<open>init_rx_socket\<close> does not leak descriptors. On every return, a socket that was opened is
  either the one handed to the caller, with result 0, or closed exactly once, with result -1 and
  \<^verbatim>\<open>*sock\<close> left at -1.
\<close>

theorem init_rx_socket_no_leak:
  assumes "init_rx_socket etype given name mac err a = Inr (ret, sk, calls)" and "0 \<le> f"
  shows "count_list calls (Socket f) = count_list calls (Close_sock f) + (if sk = Some f then 1 else 0) \<and>
         (ret = 0 \<longleftrightarrow> (\<exists>f \<ge> 0. sk = Some f)) \<and> (ret = 0 \<or> ret = - 1)"
  using assms by (auto simp: init_rx_socket_def Let_def split: if_splits)

theorem init_rx_socket_no_leak_witness:
  "\<exists>ret sk calls. init_rx_socket 0xb62c True ''eth0'' [1, 2, 3, 4, 5, 6] []
       \<lparr>rx_socket = 3, rx_ifindex_ret = 0, rx_ifindex = 2, rx_rcvbuf = 0, rx_bind = - 1, rx_membership = 0,
        rx_ioctl = 0, rx_timestamping = 0\<rparr> = Inr (ret, sk, calls) \<and> ret = - 1 \<and>
     count_list calls (Socket 3) = count_list calls (Close_sock 3) + (if sk = Some 3 then 1 else 0)"
proof -
  let ?a = "\<lparr>rx_socket = 3, rx_ifindex_ret = 0, rx_ifindex = 2, rx_rcvbuf = 0, rx_bind = - 1, rx_membership = 0,
        rx_ioctl = 0, rx_timestamping = 0\<rparr>"
  obtain ret sk calls where r: "init_rx_socket 0xb62c True ''eth0'' [1, 2, 3, 4, 5, 6] [] ?a = Inr (ret, sk, calls)"
    and "ret = - 1"
    by (simp add: init_rx_socket_def Let_def)
  with init_rx_socket_no_leak [OF r, of 3] show ?thesis by auto
qed

end
