(* ===== verification/Txrx_Afxdp.thy ===== *)
theory Txrx_Afxdp
  imports Txrx_Packet
begin

unbundle bit_operations_syntax

text \<open>
  \<^verbatim>\<open>src/txrx-afxdp.c\<close>: the AF_XDP transmitter and receiver of \<^verbatim>\<open>txrx-tsn\<close>. The rings and the
  packet memory (UMEM) are shared with the kernel through \<^verbatim>\<open>libbpf\<close>; what its functions return
  is an argument of each step. The packet memory is a function from offsets to bytes, the
  descriptors handed to the transmit ring are a list, and the addresses written to the fill ring
  are the pairs of descriptor index and address in the order of the writes.

  \<^verbatim>\<open>xdpsock_cleanup\<close> works on a global pointer that is set only at the end of the
  initialisation; \<open>X_crash\<close> is the dereference of that pointer, or of the error value that
  \<^verbatim>\<open>create_umem\<close> returns, when it is not valid. The globals \<^verbatim>\<open>glob_xdp_flags\<close> and
  \<^verbatim>\<open>glob_ifindex\<close> are written and never read. The launch time of a descriptor is the one of a
  build with \<^verbatim>\<open>WITH_XDPTBS\<close>; without it the descriptor has no such field.
\<close>

section \<open>Packet memory\<close>

definition mem_write :: "nat \<Rightarrow> bytes \<Rightarrow> (nat \<Rightarrow> u8) \<Rightarrow> nat \<Rightarrow> u8" where
  "mem_write off bs m = (\<lambda>a. if off \<le> a \<and> a < off + length bs then bs ! (a - off) else m a)"

definition mem_read :: "(nat \<Rightarrow> u8) \<Rightarrow> nat \<Rightarrow> nat \<Rightarrow> bytes" where
  "mem_read m off n = map m [off..<off + n]"

section \<open>Signals and errors\<close>

datatype xdp_stop = X_exit cint | X_crash

definition afxdp_sigint_handler :: "cint \<Rightarrow> cint \<Rightarrow> cint" where
  "afxdp_sigint_handler signum halt = signum"

text \<open>\<open>glob\<close> says whether the global pointer to the socket information is set.\<close>

definition xdpsock_cleanup :: "bool \<Rightarrow> xdp_stop" where
  "xdpsock_cleanup glob = (if glob then X_exit 0 else X_crash)"

text \<open>The \<^verbatim>\<open>exit(EXIT_FAILURE)\<close> after the clean-up is not reached: the clean-up itself exits.\<close>

definition afxdp_exit_with_error :: "bool \<Rightarrow> xdp_stop" where
  "afxdp_exit_with_error glob = xdpsock_cleanup glob"

section \<open>Initialisation\<close>

record pkt_buffer =
  fill_addrs :: "(u32 \<times> u64) list"
  fill_submitted :: nat
  buffer :: "nat \<Rightarrow> u8"

record umem_answers =
  ua_memalign :: cint
  ua_calloc :: bool
  ua_create :: cint
  ua_reserve :: cint
  ua_idx :: u32
  ua_memory :: "nat \<Rightarrow> u8"

text \<open>The loop that gives every frame to the fill ring; \<open>k\<close> iterations are left.\<close>

fun fill_loop :: "u16 \<Rightarrow> nat \<Rightarrow> u64 \<Rightarrow> u32 \<Rightarrow> (u32 \<times> u64) list" where
  "fill_loop frame_size 0 i idx = []"
| "fill_loop frame_size (Suc k) i idx = (idx, i * ucast frame_size) # fill_loop frame_size k (i + 1) (idx + 1)"

text \<open>\<open>Inr None\<close> is the return value \<^verbatim>\<open>(struct pkt_buffer *) -1\<close>.\<close>

definition create_umem :: "xsk_opt \<Rightarrow> umem_answers \<Rightarrow> xdp_stop + pkt_buffer option" where
  "create_umem x a =
     (if ua_memalign a \<noteq> 0 then Inl (X_exit 1)
      else if \<not> ua_calloc a then Inl (afxdp_exit_with_error False)
      else if ua_create a \<noteq> 0 then Inl (afxdp_exit_with_error False)
      else if ua_reserve a \<noteq> uint (xo_frames_per_ring x) then Inr None
      else Inr (Some \<lparr>fill_addrs = fill_loop (xo_frame_size x) (unat (xo_frames_per_ring x)) 0 (ua_idx a),
                      fill_submitted = unat (xo_frames_per_ring x), buffer = ua_memory a\<rparr>))"

record xsk_info =
  cur_tx :: u32
  outstanding_tx :: u32
  tx_npkts :: u64
  rx_npkts :: u64
  tx_descs :: "(u64 \<times> u32 \<times> u64) list"
  pktbuff :: pkt_buffer

record xsk_answers =
  xa_calloc :: bool
  xa_create :: cint
  xa_query :: cint

definition create_xsk_info :: "user_opt \<Rightarrow> pkt_buffer option \<Rightarrow> xsk_answers \<Rightarrow> xdp_stop + xsk_info" where
  "create_xsk_info opt pb a =
     (if \<not> xa_calloc a then Inl (afxdp_exit_with_error False)
      else case pb of
             None \<Rightarrow> Inl X_crash
           | Some b \<Rightarrow>
               if xa_create a \<noteq> 0 then Inl (afxdp_exit_with_error False)
               else if xa_query a \<noteq> 0 then Inl (afxdp_exit_with_error False)
               else Inr \<lparr>cur_tx = 0, outstanding_tx = 0, tx_npkts = 0, rx_npkts = 0, tx_descs = [], pktbuff = b\<rparr>)"

definition XDP_USE_NEED_WAKEUP :: u32 where "XDP_USE_NEED_WAKEUP = 8"

text \<open>The flags of the three modes; \<open>None\<close> for any other mode.\<close>

definition xdp_mode_flags :: "u8 \<Rightarrow> (u32 \<times> u32) option" where
  "xdp_mode_flags m =
     (let f = XDP_FLAGS_UPDATE_IF_NOEXIST; b = (0 :: u32)
      in if m = XDP_MODE_SKB_COPY then Some (f OR XDP_FLAGS_SKB_MODE, b OR XDP_COPY)
         else if m = XDP_MODE_NATIVE_COPY then Some (f OR XDP_FLAGS_DRV_MODE, b OR XDP_COPY)
         else if m = XDP_MODE_ZERO_COPY then Some (f, b OR XDP_ZEROCOPY)
         else None)"

definition init_xdp_socket ::
  "user_opt \<Rightarrow> cint \<Rightarrow> umem_answers \<Rightarrow> xsk_answers \<Rightarrow> xdp_stop + (user_opt \<times> xsk_info)" where
  "init_xdp_socket opt setrlimit_ret ua xa =
     (case xdp_mode_flags (xdp_mode opt) of
        None \<Rightarrow> Inl (X_exit 1)
      | Some (flags, bflags) \<Rightarrow>
          let bflags' = (if need_wakeup opt then bflags OR XDP_USE_NEED_WAKEUP else bflags);
              opt' = opt\<lparr>x_opt := (x_opt opt)\<lparr>xo_xdp_flags := flags, xo_bind_flags := bflags'\<rparr>\<rparr>
          in if setrlimit_ret \<noteq> 0 then Inl (X_exit 1)
             else case create_umem (x_opt opt') ua of
                    Inl x \<Rightarrow> Inl x
                  | Inr pb \<Rightarrow>
                      (case create_xsk_info opt' pb xa of
                         Inl x \<Rightarrow> Inl x
                       | Inr xsk \<Rightarrow> Inr (opt', xsk)))"

section \<open>Sending\<close>

definition SIZEOF_TSN_PACKET :: nat where "SIZEOF_TSN_PACKET = 26"
definition FRAME_SHIFT :: nat where "FRAME_SHIFT = 12"

text \<open>The loop that puts the template into every frame: 25 bytes, the headers and a little more.\<close>

fun prefill_tx_umem_rings :: "nat \<Rightarrow> nat \<Rightarrow> nat \<Rightarrow> bytes \<Rightarrow> (nat \<Rightarrow> u8) \<Rightarrow> nat \<Rightarrow> u8" where
  "prefill_tx_umem_rings i 0 frame_size pkt m = m"
| "prefill_tx_umem_rings i (Suc k) frame_size pkt m =
     prefill_tx_umem_rings (Suc i) k frame_size pkt
       (mem_write (i * frame_size) (take (SIZEOF_TSN_PACKET - 1) pkt) m)"

definition update_txstats :: "u32 \<Rightarrow> xsk_info \<Rightarrow> xsk_info" where
  "update_txstats rcvd x =
     (if outstanding_tx x = 0 then x
      else if rcvd > 0
      then x\<lparr>outstanding_tx := outstanding_tx x - rcvd, tx_npkts := tx_npkts x + ucast rcvd\<rparr>
      else x)"

record xdp_in =
  xi_sigs :: "cint list"
  xi_now :: timespec
  xi_poll :: cint
  xi_pollout :: bool
  xi_reserve :: u32
  xi_sendto :: cint
  xi_busy :: bool
  xi_peek :: u32

record xdp_st =
  x_halt :: cint
  x_i :: u64
  x_seq :: u64
  x_ts :: u64
  x_buff :: bytes
  x_wakes :: "timespec list"
  x_out :: "string list"
  x_xsk :: xsk_info

definition umem_write :: "nat \<Rightarrow> bytes \<Rightarrow> xsk_info \<Rightarrow> xsk_info" where
  "umem_write off bs x =
     x\<lparr>pktbuff := (pktbuff x)\<lparr>buffer := mem_write off bs (buffer (pktbuff x))\<rparr>\<rparr>"

definition tx_addr :: "xsk_info \<Rightarrow> u64" where
  "tx_addr x = push_bit FRAME_SHIFT (ucast (cur_tx x))"

text \<open>The descriptor of the current frame is submitted and the frame counter advanced.\<close>

definition tx_submit :: "user_opt \<Rightarrow> u32 \<Rightarrow> u64 \<Rightarrow> xsk_info \<Rightarrow> xsk_info" where
  "tx_submit opt psize txtime x =
     x\<lparr>tx_descs := tx_descs x @ [(tx_addr x, psize, txtime)],
       outstanding_tx := outstanding_tx x + 1,
       cur_tx := (cur_tx x + 1) mod ucast (xo_frames_per_ring (x_opt opt))\<rparr>"

definition afxdp_send_pkt ::
  "user_opt \<Rightarrow> u32 \<Rightarrow> u32 \<Rightarrow> bytes \<Rightarrow> u64 \<Rightarrow> xdp_in \<Rightarrow> xsk_info \<Rightarrow> xdp_stop + xsk_info" where
  "afxdp_send_pkt opt hsize psize payload tx_timestamp i x =
     (if enable_poll opt \<noteq> 0 \<and> (xi_poll i \<le> 0 \<or> \<not> xi_pollout i) then Inr x
      else
        let x1 = umem_write (unat (tx_addr x) + unat hsize) (take (unat (psize - hsize)) payload) x
        in if xi_reserve i \<noteq> 1 then Inr x1
           else
             let txtime = (if enable_txtime opt = 0 then 0 else tx_timestamp);
                 x2 = tx_submit opt psize txtime x1
             in if 0 \<le> xi_sendto i \<or> xi_busy i then Inr (update_txstats (xi_peek i) x2)
                else Inl (afxdp_exit_with_error True))"

definition xdp_buff :: "user_opt \<Rightarrow> u32 \<Rightarrow> u64 \<Rightarrow> bytes \<Rightarrow> bytes" where
  "xdp_buff opt sq now buff =
     put_bytes 8 (bytes_of_u64 now)
       (put_bytes 4 (bytes_of_u32 sq)
         (put_bytes 0 (bytes_of_u32 (ucast (xo_queue (x_opt opt)))) buff))"

definition xdp_body :: "txrx_cfg \<Rightarrow> xdp_in \<Rightarrow> xdp_st \<Rightarrow> (xdp_stop, xdp_st) run" where
  "xdp_body c i s0 =
     (let opt = opts c;
          s = s0\<lparr>x_halt := fold afxdp_sigint_handler (xi_sigs i) (x_halt s0)\<rparr>;
          s1 = s\<lparr>x_wakes := x_wakes s @ [ts_of_u64 (x_ts s - ucast (early_offset_ns opt))],
                 x_buff := xdp_buff opt (ucast (x_seq s)) (get_time_nanosec (xi_now i)) (x_buff s)\<rparr>
      in if \<not> (x_halt s = 0 \<and> x_i s < ucast (frames_to_send opt + 10)) then Done s
         else
           case afxdp_send_pkt opt 18 (packet_size opt) (x_buff s1)
                  (if enable_txtime opt \<noteq> 0 then x_ts s else 0) i (x_xsk s1) of
             Inl x \<Rightarrow> Exited x s1
           | Inr x \<Rightarrow>
               Running (s1\<lparr>x_xsk := x,
                 x_out := x_out s1 @
                   (if txrx_verbose c \<noteq> 0
                    then [show_int (sint (ucast (x_seq s) :: u32)) @ tab @
                          show_int (sint (get_time_nanosec (xi_now i))) @ ''\<newline>'']
                    else []),
                 x_seq := x_seq s + 1, x_ts := x_ts s + ucast (interval_ns opt), x_i := x_i s + 1\<rparr>))"

definition xdp_init :: "txrx_cfg \<Rightarrow> timespec \<Rightarrow> cint \<Rightarrow> bytes \<Rightarrow> xsk_info \<Rightarrow> xdp_st" where
  "xdp_init c now halt junk x =
     (let opt = opts c;
          m = prefill_tx_umem_rings 0 (unat (xo_frames_per_ring (x_opt opt))) (unat (xo_frame_size (x_opt opt)))
                (setup_tsn_vlan_packet c) (buffer (pktbuff x))
      in \<lparr>x_halt = halt, x_i = 0, x_seq = 0,
          x_ts = get_time_sec now + ucast (offset_ns opt) + 2 * 1000000000,
          x_buff = junk, x_wakes = [], x_out = [],
          x_xsk = x\<lparr>pktbuff := (pktbuff x)\<lparr>buffer := m\<rparr>\<rparr>\<rparr>)"

definition afxdp_send_thread ::
  "txrx_cfg \<Rightarrow> timespec \<Rightarrow> cint \<Rightarrow> bytes \<Rightarrow> u32 \<Rightarrow> xsk_info \<Rightarrow> xdp_in list \<Rightarrow> (xdp_stop, xdp_st) run" where
  "afxdp_send_thread c now halt junk last_peek x is =
     (case iterate (xdp_body c) is (xdp_init c now halt junk x) of
        Done s \<Rightarrow> Done (s\<lparr>x_xsk := update_txstats last_peek (x_xsk s)\<rparr>)
      | r \<Rightarrow> r)"

section \<open>Receiving\<close>

record xdp_rx =
  g_rx_seq :: u32
  g_out :: "string list"
  g_fill :: nat
  g_npkts :: u64

text \<open>
  The checks of a received frame at \<open>addr\<close>: the VLAN type as the little-endian value 0x81 (or
  8), the type 0xb62c, a sequence number between 1 and fifty million.
\<close>

definition rx_accepts :: "bytes \<Rightarrow> bool" where
  "rx_accepts pkt =
     (let vlan_hdr = u16_of_bytes (get_bytes 12 2 pkt);
          eth_hdr = u16_of_bytes (get_bytes 16 2 pkt);
          sq = pl_seq (packet_payload pkt)
      in (vlan_hdr = 0x81 \<or> vlan_hdr = 0x08) \<and> eth_hdr = htons 0xb62c \<and>
         (sq > 0 \<and> sq < 50 * 1000 * 1000) \<and> pkt ! 14 div 32 < 8)"

definition rx_line :: "bytes \<Rightarrow> u64 \<Rightarrow> u64 \<Rightarrow> string" where
  "rx_line pkt hwts tsD =
     (let p = packet_payload pkt
      in show_nat (unat (tsD - tx_timestampA p)) @ tab @ show_nat (unat (pl_seq p)) @ tab @
         show_nat (unat (tx_queue p)) @ tab @ show_nat (unat (tx_timestampA p)) @ tab @
         show_nat (unat hwts) @ tab @ show_nat (unat tsD) @ ''\<newline>'')"

text \<open>One frame; the hardware time stamp is in the eight bytes before it.\<close>

definition rx_frame :: "(nat \<Rightarrow> u8) \<Rightarrow> u64 \<times> u32 \<times> timespec \<Rightarrow> xdp_rx \<Rightarrow> xdp_rx" where
  "rx_frame m d g =
     (let (addr, len, now) = d;
          pkt = mem_read m (unat addr) 42;
          hwts = u64_of_bytes (mem_read m (unat addr - 8) 8)
      in if len = 0 then g
         else if rx_accepts pkt
         then g\<lparr>g_out := g_out g @ [rx_line pkt hwts (get_time_nanosec now)],
                g_rx_seq := pl_seq (packet_payload pkt)\<rparr>
         else g)"

text \<open>
  The reservation of fill-ring entries is repeated until it gives the number asked for; the list
  holds what the successive calls return.
\<close>

fun reserve_loop :: "cint \<Rightarrow> cint list \<Rightarrow> (xdp_stop + unit) option" where
  "reserve_loop rcvd [] = None"
| "reserve_loop rcvd (r # rs) =
     (if r = rcvd then Some (Inr ())
      else if r < 0 then Some (Inl (afxdp_exit_with_error True))
      else reserve_loop rcvd rs)"

text \<open>\<open>None\<close>: still waiting for fill-ring entries.\<close>

definition afxdp_recv_pkt ::
  "(nat \<Rightarrow> u8) \<Rightarrow> (u64 \<times> u32 \<times> timespec) list \<Rightarrow> cint list \<Rightarrow> xdp_rx \<Rightarrow> (xdp_stop + xdp_rx) option" where
  "afxdp_recv_pkt m descs rets g =
     (let rcvd = int (length descs)
      in if descs = [] then Some (Inr g)
         else case reserve_loop rcvd rets of
                None \<Rightarrow> None
              | Some (Inl x) \<Rightarrow> Some (Inl x)
              | Some (Inr _) \<Rightarrow>
                  let g1 = fold (rx_frame m) descs g
                  in Some (Inr (g1\<lparr>g_fill := g_fill g1 + length descs,
                                   g_npkts := g_npkts g1 + of_int rcvd\<rparr>)))"

section \<open>Lemmas on the packet memory\<close>

lemma length_mem_read [simp]: "length (mem_read m off n) = n"
  by (simp add: mem_read_def)

lemma mem_read_other:
  "off' + n \<le> off \<or> off + length bs \<le> off' \<Longrightarrow> mem_read (mem_write off bs m) off' n = mem_read m off' n"
  by (auto simp: mem_read_def mem_write_def)

lemma mem_read_same: "n \<le> length bs \<Longrightarrow> mem_read (mem_write off bs m) off n = take n bs"
  by (rule nth_equalityI) (simp_all add: mem_read_def mem_write_def)

lemma mem_read_slice: "k + n \<le> N \<Longrightarrow> get_bytes k n (mem_read m off N) = mem_read m (off + k) n"
  by (rule nth_equalityI) (simp_all add: mem_read_def get_bytes_def add.assoc)

lemma mem_read_drop: "k \<le> N \<Longrightarrow> drop k (mem_read m off N) = mem_read m (off + k) (N - k)"
  by (rule nth_equalityI) (simp_all add: mem_read_def add.assoc)

lemma prefill_before:
  "k < i \<Longrightarrow> mem_read (prefill_tx_umem_rings i n 4096 pkt m) (k * 4096) 18 = mem_read m (k * 4096) 18"
proof (induction n arbitrary: i m)
  case 0
  then show ?case by simp
next
  case (Suc n)
  then have "k * 4096 + 18 \<le> i * 4096" by linarith
  with Suc show ?case by (simp add: mem_read_other)
qed

lemma prefill_frames:
  "25 \<le> length pkt \<Longrightarrow> i \<le> k \<Longrightarrow> k < i + n \<Longrightarrow>
     mem_read (prefill_tx_umem_rings i n 4096 pkt m) (k * 4096) 18 = take 18 pkt"
proof (induction n arbitrary: i m)
  case 0
  then show ?case by simp
next
  case (Suc n)
  show ?case
  proof (cases "k = i")
    case True
    then show ?thesis
      using Suc.prems by (simp add: prefill_before mem_read_same SIZEOF_TSN_PACKET_def min_def)
  next
    case False
    with Suc show ?thesis by simp
  qed
qed

section \<open>Invariant of the sending thread\<close>

lemma unat_tx_addr:
  assumes "unat (cur_tx x) < 4096"
  shows "unat (tx_addr x) = unat (cur_tx x) * 4096"
  using assms
  by (simp add: tx_addr_def FRAME_SHIFT_def push_bit_eq_mult unat_word_ariths unat_ucast_u32_u64)

definition umem_headers :: "txrx_cfg \<Rightarrow> (nat \<Rightarrow> u8) \<Rightarrow> bool" where
  "umem_headers c m \<longleftrightarrow> (\<forall>k < 4096. mem_read m (k * 4096) 18 = take 18 (setup_tsn_vlan_packet c))"

definition frame_desc :: "u32 \<Rightarrow> u64 \<times> u32 \<times> u64 \<Rightarrow> bool" where
  "frame_desc psize d \<longleftrightarrow> (\<exists>k < 4096. unat (fst d) = k * 4096) \<and> fst (snd d) = psize"

definition xsk_ok :: "txrx_cfg \<Rightarrow> xsk_info \<Rightarrow> bool" where
  "xsk_ok c x \<longleftrightarrow>
     unat (cur_tx x) < 4096 \<and> list_all (frame_desc (packet_size (opts c))) (tx_descs x) \<and>
     umem_headers c (buffer (pktbuff x))"

definition xdp_inv :: "txrx_cfg \<Rightarrow> xdp_st \<Rightarrow> bool" where
  "xdp_inv c s \<longleftrightarrow>
     txrx_cfg_ok c \<and> length (x_buff s) = unat (packet_size (opts c)) \<and> xsk_ok c (x_xsk s)"

lemma update_txstats_simps [simp]:
  "cur_tx (update_txstats r x) = cur_tx x" "tx_descs (update_txstats r x) = tx_descs x"
  "pktbuff (update_txstats r x) = pktbuff x"
  by (simp_all add: update_txstats_def)

lemma umem_write_simps [simp]:
  "cur_tx (umem_write off bs x) = cur_tx x" "tx_descs (umem_write off bs x) = tx_descs x"
  "outstanding_tx (umem_write off bs x) = outstanding_tx x" "tx_npkts (umem_write off bs x) = tx_npkts x"
  "buffer (pktbuff (umem_write off bs x)) = mem_write off bs (buffer (pktbuff x))"
  "tx_addr (umem_write off bs x) = tx_addr x"
  by (simp_all add: umem_write_def tx_addr_def)

lemma payload_write_headers:
  assumes "umem_headers c m" and "k < 4096" and "length bs \<le> 4078"
  shows "umem_headers c (mem_write (k * 4096 + 18) bs m)"
proof -
  have "mem_read (mem_write (k * 4096 + 18) bs m) (j * 4096) 18 = mem_read m (j * 4096) 18" for j
  proof (rule mem_read_other)
    have "j \<le> k \<or> Suc k \<le> j" by linarith
    then show "j * 4096 + 18 \<le> k * 4096 + 18 \<or> k * 4096 + 18 + length bs \<le> j * 4096"
      using assms(3) by linarith
  qed
  with assms(1) show ?thesis by (simp add: umem_headers_def)
qed

lemma next_frame:
  assumes "txrx_cfg_ok c"
  shows "unat ((w + 1) mod ucast (xo_frames_per_ring (x_opt (opts c))) :: u32) < 4096"
proof -
  have "(ucast (xo_frames_per_ring (x_opt (opts c))) :: u32) = 4096"
    using assms by (simp add: txrx_cfg_ok_def txrx_opt_ok_def)
  then show ?thesis by (simp add: unat_mod)
qed

lemma send_pkt_ok:
  assumes "txrx_cfg_ok c" and "xsk_ok c x" and "length payload = unat (packet_size (opts c))"
    and "afxdp_send_pkt (opts c) 18 (packet_size (opts c)) payload t i x = Inr x'"
  shows "xsk_ok c x'"
proof -
  let ?bs = "take (unat (packet_size (opts c) - 18)) payload"
  let ?x1 = "umem_write (unat (tx_addr x) + 18) ?bs x"
  have addr: "unat (tx_addr x) = unat (cur_tx x) * 4096" "unat (cur_tx x) < 4096"
    using assms(2) by (simp_all add: unat_tx_addr xsk_ok_def)
  have "length ?bs \<le> 4078"
    using assms(3) cfg_packet_size [OF assms(1)] by auto
  then have x1: "xsk_ok c ?x1"
    using assms(2) addr payload_write_headers [of c "buffer (pktbuff x)" "unat (cur_tx x)" ?bs]
    by (simp add: xsk_ok_def)
  have x2: "xsk_ok c (tx_submit (opts c) (packet_size (opts c)) u ?x1)" for u
    using x1 next_frame [OF assms(1), of "cur_tx x"] addr
    by (auto simp: xsk_ok_def tx_submit_def frame_desc_def)
  have upd: "xsk_ok c (update_txstats r y) = xsk_ok c y" for r y
    by (simp add: xsk_ok_def)
  show ?thesis
    using assms(4) x1 x2 assms(2)
    by (auto simp: afxdp_send_pkt_def Let_def upd split: if_splits)
qed

lemma length_xdp_buff: "16 \<le> length b \<Longrightarrow> length (xdp_buff opt sq now b) = length b"
  by (simp add: xdp_buff_def)

interpretation xdp_sending: inv_loop "xdp_body c" "xdp_inv c" for c
proof
  fix i s
  assume inv: "xdp_inv c s"
  then have ok: "txrx_cfg_ok c" and "16 \<le> length (x_buff s)"
    using cfg_packet_size [of c] by (auto simp: xdp_inv_def)
  then have len: "length (xdp_buff (opts c) sq now (x_buff s)) = unat (packet_size (opts c))" for sq now
    using inv by (simp add: length_xdp_buff xdp_inv_def)
  have xsk: "xsk_ok c (x_xsk s)"
    using inv by (simp add: xdp_inv_def)
  show "xdp_inv c (run_state (xdp_body c i s))"
    using inv ok len send_pkt_ok [OF ok xsk len]
    by (auto simp: xdp_body_def Let_def xdp_inv_def split: sum.split)
qed

lemma xdp_init_inv:
  assumes "txrx_cfg_ok c" and "length junk = unat (packet_size (opts c))"
    and "cur_tx x = 0" and "tx_descs x = []"
  shows "xdp_inv c (xdp_init c now halt junk x)"
proof -
  have "unat (xo_frames_per_ring (x_opt (opts c))) = 4096" "unat (xo_frame_size (x_opt (opts c))) = 4096"
    using assms(1) by (simp_all add: txrx_cfg_ok_def txrx_opt_ok_def)
  moreover have "25 \<le> length (setup_tsn_vlan_packet c)"
    using cfg_packet_size [OF assms(1)] assms(1) by auto
  ultimately show ?thesis
    using assms prefill_frames [of "setup_tsn_vlan_packet c" 0]
    by (simp add: xdp_inv_def xsk_ok_def umem_headers_def xdp_init_def Let_def)
qed

section \<open>Completion accounting and schedule\<close>

text \<open>
  Peeking at most one completion returns 0 or 1. \<open>peek_one\<close> is an iteration with that contract
  of the ring enforced.
\<close>

definition peek_one :: "xdp_in \<Rightarrow> xdp_in" where
  "peek_one i = i\<lparr>xi_peek := min 1 (xi_peek i)\<rparr>"

lemma peek_one_id: "xi_peek i \<le> 1 \<Longrightarrow> peek_one i = i"
  by (simp add: peek_one_def min.absorb2)

definition tx_account :: "xsk_info \<Rightarrow> bool" where
  "tx_account x \<longleftrightarrow>
     (length (tx_descs x) < 2 ^ 32 \<longrightarrow> unat (outstanding_tx x) + unat (tx_npkts x) = length (tx_descs x))"

lemma tx_account_update:
  assumes "tx_account x" and "r \<le> 1"
  shows "tx_account (update_txstats r x)"
proof (cases "outstanding_tx x = 0 \<or> r = 0")
  case True
  with assms(1) show ?thesis by (auto simp: update_txstats_def)
next
  case False
  then have "unat r \<noteq> 0" and "unat r \<le> 1"
    using assms(2) by (simp_all add: unat_eq_0 word_le_nat_alt)
  then have "unat r = 1" by linarith
  then have r: "r = 1" by (intro unsigned_word_eqI [where ?'a = nat]) simp
  show ?thesis
    unfolding tx_account_def
  proof
    assume len: "length (tx_descs (update_txstats r x)) < 2 ^ 32"
    then have eq: "unat (outstanding_tx x) + unat (tx_npkts x) = length (tx_descs x)"
      using assms(1) by (simp add: tx_account_def)
    have pos: "0 < unat (outstanding_tx x)"
      using False by (simp add: unat_gt_0)
    have "unat (outstanding_tx x - 1) = unat (outstanding_tx x) - 1"
      using False by (simp add: unat_minus_one)
    moreover have "unat (tx_npkts x + 1) = unat (tx_npkts x) + 1"
      using eq len by (simp add: unat_word_ariths)
    ultimately show "unat (outstanding_tx (update_txstats r x)) + unat (tx_npkts (update_txstats r x)) =
        length (tx_descs (update_txstats r x))"
      using False r eq pos by (simp add: update_txstats_def)
  qed
qed

lemma tx_account_submit: "tx_account x \<Longrightarrow> tx_account (tx_submit opt p t x)"
  unfolding tx_account_def tx_submit_def
  by (auto simp: unat_word_ariths)

lemma tx_account_send:
  assumes "tx_account x" and "xi_peek i \<le> 1" and "afxdp_send_pkt opt h p pay t i x = Inr x'"
  shows "tx_account x'"
proof -
  have w: "tx_account (umem_write off bs x)" for off bs
    using assms(1) by (simp add: tx_account_def)
  show ?thesis
    using assms w by (auto simp: afxdp_send_pkt_def Let_def split: if_splits
        intro!: tx_account_update tx_account_submit)
qed

interpretation xdp_accounting: inv_loop "\<lambda>i. xdp_body c (peek_one i)" "\<lambda>s. tx_account (x_xsk s)" for c
proof
  fix i and s :: xdp_st
  assume "tx_account (x_xsk s)"
  moreover have "xi_peek (peek_one i) \<le> 1"
    by (simp add: peek_one_def)
  ultimately show "tx_account (x_xsk (run_state (xdp_body c (peek_one i) s)))"
    using tx_account_send by (fastforce simp: xdp_body_def Let_def split: sum.split)
qed

lemma xdp_body_running:
  "xdp_body c i s = Running s' \<Longrightarrow>
     x_ts s' = x_ts s + ucast (interval_ns (opts c)) \<and> x_seq s' = x_seq s + 1 \<and> x_i s' = x_i s + 1 \<and>
     x_i s < ucast (frames_to_send (opts c) + 10) \<and>
     x_wakes s' = x_wakes s @ [ts_of_u64 (x_ts s - ucast (early_offset_ns (opts c)))]"
  by (auto simp: xdp_body_def Let_def split: if_splits sum.splits)

interpretation xdp_cycle: cyclic_loop "xdp_body c" "\<lambda>_. True" x_ts "ucast (interval_ns (opts c))" x_wakes
    "\<lambda>t. ts_of_u64 (t - ucast (early_offset_ns (opts c)))" for c
  by unfold_locales (use xdp_body_running in auto)

section \<open>The frame that is submitted\<close>

lemma xdp_buff_payload:
  assumes "24 \<le> length b"
  shows "tx_queue (custom_of_bytes (xdp_buff opt sq now b)) = ucast (xo_queue (x_opt opt))"
    and "pl_seq (custom_of_bytes (xdp_buff opt sq now b)) = sq"
    and "tx_timestampA (custom_of_bytes (xdp_buff opt sq now b)) = now"
  using assms by (simp_all add: custom_of_bytes_def xdp_buff_def bytes_simps)

lemma custom_take: "24 \<le> n \<Longrightarrow> custom_of_bytes (take n bs) = custom_of_bytes bs"
  by (simp add: custom_of_bytes_def get_bytes_take)

text \<open>The conditions under which an iteration submits its packet.\<close>

definition submits :: "user_opt \<Rightarrow> xdp_in \<Rightarrow> bool" where
  "submits opt i \<longleftrightarrow> xi_reserve i = 1 \<and> (0 \<le> xi_sendto i \<or> xi_busy i) \<and>
     (enable_poll opt = 0 \<or> 0 < xi_poll i \<and> xi_pollout i)"

text \<open>The frame an iteration writes, whether its descriptor is submitted or not.\<close>

lemma xdp_body_writes:
  assumes "xdp_inv c s" and "xdp_body c i s = Running s'"
    and "enable_poll (opts c) = 0 \<or> 0 < xi_poll i \<and> xi_pollout i"
  defines "m \<equiv> buffer (pktbuff (x_xsk s'))" and "a \<equiv> unat (tx_addr (x_xsk s))"
  shows "mem_read m a 18 = take 18 (setup_tsn_vlan_packet c)"
    and "custom_of_bytes (mem_read m (a + 18) 24) =
           custom_of_bytes (xdp_buff (opts c) (ucast (x_seq s)) (get_time_nanosec (xi_now i)) (x_buff s))"
proof -
  let ?b = "xdp_buff (opts c) (ucast (x_seq s)) (get_time_nanosec (xi_now i)) (x_buff s)"
  let ?bs = "take (unat (packet_size (opts c) - 18)) ?b"
  have ok: "txrx_cfg_ok c" and xsk: "unat (cur_tx (x_xsk s)) < 4096" and lb: "length (x_buff s) = unat (packet_size (opts c))"
    using assms(1) by (simp_all add: xdp_inv_def xsk_ok_def)
  note size = cfg_packet_size [OF ok, THEN conjunct1]
  have n: "unat (packet_size (opts c) - 18) = unat (packet_size (opts c)) - 18"
    using size by (simp add: unat_sub word_le_nat_alt)
  have step: "m = mem_write (a + 18) ?bs (buffer (pktbuff (x_xsk s)))"
    using assms(2,3)
    by (auto simp: xdp_body_def afxdp_send_pkt_def Let_def tx_submit_def m_def a_def split: if_splits)
  have "umem_headers c m"
    using xdp_sending.inv_body [OF assms(1), of i] assms(2) by (simp add: xdp_inv_def xsk_ok_def m_def)
  then show "mem_read m a 18 = take 18 (setup_tsn_vlan_packet c)"
    using xsk by (simp add: umem_headers_def a_def unat_tx_addr)
  have "24 \<le> length ?bs"
    using size lb n by (simp add: length_xdp_buff)
  then have "mem_read m (a + 18) 24 = take 24 ?b"
    using step by (simp add: mem_read_same)
  then show "custom_of_bytes (mem_read m (a + 18) 24) = custom_of_bytes ?b"
    by (simp add: custom_take)
qed

lemma xdp_body_submits:
  assumes "xdp_body c i s = Running s'" and "submits (opts c) i"
  shows "tx_descs (x_xsk s') = tx_descs (x_xsk s) @
           [(tx_addr (x_xsk s), packet_size (opts c), if enable_txtime (opts c) = 0 then 0 else x_ts s)]"
  using assms
  by (auto simp: xdp_body_def afxdp_send_pkt_def submits_def Let_def tx_submit_def split: if_splits)

text \<open>The thread ends with the state of its loop, the statistics apart.\<close>

lemma send_thread_state:
  "\<exists>r. x_xsk (run_state (afxdp_send_thread c now halt junk lp x is)) =
     (if r then update_txstats lp (x_xsk (run_state (iterate (xdp_body c) is (xdp_init c now halt junk x))))
      else x_xsk (run_state (iterate (xdp_body c) is (xdp_init c now halt junk x))))"
  by (cases "iterate (xdp_body c) is (xdp_init c now halt junk x)")
    (auto simp: afxdp_send_thread_def intro: exI [of _ True] exI [of _ False])

lemma send_thread_xsk_ok:
  assumes "txrx_cfg_ok c" and "length junk = unat (packet_size (opts c))" and "cur_tx x = 0" and "tx_descs x = []"
  shows "xsk_ok c (x_xsk (run_state (afxdp_send_thread c now halt junk lp x is)))"
proof -
  have "xdp_inv c (run_state (iterate (xdp_body c) is (xdp_init c now halt junk x)))"
    by (rule xdp_sending.inv_iterate) (rule xdp_init_inv [OF assms])
  then show ?thesis
    using send_thread_state [of c now halt junk lp x "is"] by (auto simp: xdp_inv_def xsk_ok_def)
qed

lemma fill_loop_addrs:
  "j < k \<Longrightarrow> (i + of_nat j) * ucast fs \<in> snd ` set (fill_loop fs k i idx)"
proof (induction k arbitrary: i idx j)
  case 0
  then show ?case by simp
next
  case (Suc k)
  show ?case
  proof (cases j)
    case 0
    then show ?thesis by simp
  next
    case (Suc j')
    have "(i + 1 + of_nat j') * ucast fs \<in> snd ` set (fill_loop fs k (i + 1) (idx + 1))"
      by (rule Suc.IH) (use Suc.prems Suc in simp)
    with Suc show ?thesis by (simp add: add.assoc)
  qed
qed

text \<open>Iterations without a signal and without a failing send.\<close>

definition xdp_quiet :: "xdp_in \<Rightarrow> bool" where
  "xdp_quiet i \<longleftrightarrow> xi_sigs i = [] \<and> (0 \<le> xi_sendto i \<or> xi_busy i)"

lemma xdp_body_quiet:
  assumes "xdp_quiet i" and "x_halt s = 0" and "x_i s < ucast (frames_to_send (opts c) + 10)"
  shows "\<exists>s'. xdp_body c i s = Running s' \<and> x_halt s' = 0"
  using assms by (auto simp: xdp_quiet_def xdp_body_def afxdp_send_pkt_def Let_def split: sum.split)

lemma xdp_remaining:
  assumes "unat (frames_to_send (opts c)) \<le> 10000000"
  shows "x_halt s = 0 \<Longrightarrow> \<forall>i \<in> set is. xdp_quiet i \<Longrightarrow>
    unat (x_i s) + length is = unat (frames_to_send (opts c)) + 10 \<Longrightarrow>
    \<exists>s'. iterate (xdp_body c) is s = Running s' \<and> x_halt s' = 0 \<and>
       x_i s' = ucast (frames_to_send (opts c) + 10) \<and> x_seq s' = x_seq s + of_nat (length is)"
proof (induction "is" arbitrary: s)
  have N: "unat (ucast (frames_to_send (opts c) + 10) :: u64) = unat (frames_to_send (opts c)) + 10"
    using assms by (simp add: unat_ucast_u32_u64 unat_word_ariths)
  {
    case Nil
    then show ?case
      using N by (auto intro!: unsigned_word_eqI [where ?'a = nat])
  next
    case (Cons i "is")
    have lt: "x_i s < ucast (frames_to_send (opts c) + 10)"
      using Cons.prems(3) N by (simp add: word_less_nat_alt)
    then obtain t where t: "xdp_body c i s = Running t" "x_halt t = 0"
      using xdp_body_quiet [of i s c] Cons.prems by auto
    have "unat (x_i s + 1) = unat (x_i s) + 1"
      using Cons.prems(3) assms by (simp add: unat_word_ariths)
    then show ?case
      using Cons.IH [of t] Cons.prems t xdp_body_running [OF t(1)] by (simp add: algebra_simps)
  }
qed

section \<open>Properties\<close>

definition ex_xin :: "int \<Rightarrow> xdp_in" where
  "ex_xin ns = \<lparr>xi_sigs = [], xi_now = Timespec 12 ns, xi_poll = 0, xi_pollout = False, xi_reserve = 1,
     xi_sendto = 0, xi_busy = False, xi_peek = 0\<rparr>"

definition ex_umem :: umem_answers where
  "ex_umem = \<lparr>ua_memalign = 0, ua_calloc = True, ua_create = 0, ua_reserve = 4096, ua_idx = 0, ua_memory = (\<lambda>_. 0)\<rparr>"

definition ex_xsk :: xsk_info where
  "ex_xsk = \<lparr>cur_tx = 0, outstanding_tx = 0, tx_npkts = 0, rx_npkts = 0, tx_descs = [],
     pktbuff = \<lparr>fill_addrs = fill_loop 4096 4096 0 0, fill_submitted = 4096, buffer = (\<lambda>_. 0)\<rparr>\<rparr>"

text \<open>
  C10: memory safety of the transmit side. Every descriptor the sender hands to the kernel starts
  at a frame boundary and ends inside that frame and inside the packet memory of 4096 frames of
  4096 bytes, however long the sender runs and whatever the kernel answers.
\<close>

theorem afxdp_descriptors_in_umem:
  assumes "txrx_cfg_ok c" and "length junk = unat (packet_size (opts c))" and "cur_tx x = 0" and "tx_descs x = []"
    and "(a, len, t) \<in> set (tx_descs (x_xsk (run_state (afxdp_send_thread c now halt junk lp x ins))))"
  shows "unat a mod 4096 = 0 \<and> unat len \<le> 4096 \<and> unat a + unat len \<le> 4096 * 4096"
proof -
  have "frame_desc (packet_size (opts c)) (a, len, t)"
    using send_thread_xsk_ok [OF assms(1-4)] assms(5) by (auto simp: xsk_ok_def list_all_iff)
  then obtain k where "k < 4096" "unat a = k * 4096" "len = packet_size (opts c)"
    by (auto simp: frame_desc_def)
  with cfg_packet_size [OF assms(1)] show ?thesis by auto
qed

lemma ex_xdp_run:
  "\<exists>s. afxdp_send_thread txrx_defaults (Timespec 10 5) 0 (zeros 64) 0 ex_xsk [ex_xin 7, ex_xin 8] = Running s \<and>
     tx_descs (x_xsk s) = [(0, 64, 0), (4096, 64, 0)] \<and> outstanding_tx (x_xsk s) = 2 \<and> tx_npkts (x_xsk s) = 0"
  by (simp add: afxdp_send_thread_def xdp_body_def xdp_init_def ex_xin_def afxdp_send_pkt_def Let_def
      txrx_defaults_def ex_xsk_def tx_submit_def update_txstats_def tx_addr_def umem_write_def FRAME_SHIFT_def)

theorem afxdp_descriptors_in_umem_witness:
  "\<exists>s. afxdp_send_thread txrx_defaults (Timespec 10 5) 0 (zeros 64) 0 ex_xsk [ex_xin 7, ex_xin 8] = Running s \<and>
     (4096, 64, 0) \<in> set (tx_descs (x_xsk s)) \<and> unat (4096 :: u64) + unat (64 :: u32) \<le> 4096 * 4096"
proof -
  obtain s where s: "afxdp_send_thread txrx_defaults (Timespec 10 5) 0 (zeros 64) 0 ex_xsk [ex_xin 7, ex_xin 8] = Running s"
    and d: "(4096, 64, 0) \<in> set (tx_descs (x_xsk s))"
    using ex_xdp_run by fastforce
  have "unat (4096 :: u64) mod 4096 = 0 \<and> unat (64 :: u32) \<le> 4096 \<and> unat (4096 :: u64) + unat (64 :: u32) \<le> 4096 * 4096"
    by (rule afxdp_descriptors_in_umem [OF txrx_defaults_ok, where junk = "zeros 64" and x = ex_xsk and t = 0
        and now = "Timespec 10 5" and halt = 0 and lp = 0 and ins = "[ex_xin 7, ex_xin 8]"])
      (use s d in \<open>simp_all add: txrx_defaults_def ex_xsk_def\<close>)
  with s d show ?thesis by blast
qed

text \<open>
  C32: the frames used for sending are also given to the kernel for receiving. Every descriptor
  the sender submits points to a frame that \<^verbatim>\<open>create_umem\<close> has put into the fill ring, so an
  incoming packet may be stored over a packet that waits for transmission.
\<close>

theorem afxdp_tx_frames_in_fill_ring:
  assumes "txrx_cfg_ok c" and "length junk = unat (packet_size (opts c))" and "cur_tx x = 0" and "tx_descs x = []"
    and "create_umem (x_opt (opts c)) ua = Inr (Some b)"
    and "(a, len, t) \<in> set (tx_descs (x_xsk (run_state (afxdp_send_thread c now halt junk lp x ins))))"
  shows "a \<in> snd ` set (fill_addrs b)"
proof -
  have xo: "xo_frames_per_ring (x_opt (opts c)) = 4096" "xo_frame_size (x_opt (opts c)) = 4096"
    using assms(1) by (simp_all add: txrx_cfg_ok_def txrx_opt_ok_def)
  have "frame_desc (packet_size (opts c)) (a, len, t)"
    using send_thread_xsk_ok [OF assms(1-4)] assms(6) by (auto simp: xsk_ok_def list_all_iff)
  then obtain k where k: "k < 4096" "unat a = k * 4096"
    by (auto simp: frame_desc_def)
  then have "a = (0 + of_nat k) * ucast (4096 :: u16)"
    by (intro unsigned_word_eqI [where ?'a = nat]) (simp add: unat_word_ariths unat_of_nat)
  moreover have "fill_addrs b = fill_loop 4096 4096 0 (ua_idx ua)"
    using assms(5) xo by (auto simp: create_umem_def split: if_splits)
  ultimately show ?thesis
    using fill_loop_addrs [OF k(1), of 0 4096 "ua_idx ua"] by simp
qed

theorem afxdp_tx_frames_in_fill_ring_witness:
  "\<exists>b s. create_umem (x_opt (opts txrx_defaults)) ex_umem = Inr (Some b) \<and>
     afxdp_send_thread txrx_defaults (Timespec 10 5) 0 (zeros 64) 0 ex_xsk [ex_xin 7, ex_xin 8] = Running s \<and>
     (4096, 64, 0) \<in> set (tx_descs (x_xsk s)) \<and> 4096 \<in> snd ` set (fill_addrs b)"
proof -
  obtain b where b: "create_umem (x_opt (opts txrx_defaults)) ex_umem = Inr (Some b)"
    by (simp add: create_umem_def txrx_defaults_def ex_umem_def)
  obtain s where s: "afxdp_send_thread txrx_defaults (Timespec 10 5) 0 (zeros 64) 0 ex_xsk [ex_xin 7, ex_xin 8] = Running s"
    and d: "(4096, 64, 0) \<in> set (tx_descs (x_xsk s))"
    using ex_xdp_run by fastforce
  have "4096 \<in> snd ` set (fill_addrs b)"
    by (rule afxdp_tx_frames_in_fill_ring [OF txrx_defaults_ok _ _ _ b, where junk = "zeros 64" and x = ex_xsk and t = 0
        and len = 64 and now = "Timespec 10 5" and halt = 0 and lp = 0 and ins = "[ex_xin 7, ex_xin 8]"])
      (use s d in \<open>simp_all add: txrx_defaults_def ex_xsk_def\<close>)
  with b s d show ?thesis by blast
qed

text \<open>
  C20: completion accounting. With a completion ring that returns at most one completion when one
  is asked for, the number of packets submitted is always the number completed plus the number
  outstanding; in particular the outstanding counter never wraps below 0.
\<close>

theorem afxdp_accounting:
  assumes "\<forall>i \<in> set ins. xi_peek i \<le> 1" and "lp \<le> 1"
    and "tx_descs x = []" and "outstanding_tx x = 0" and "tx_npkts x = 0"
    and "y = x_xsk (run_state (afxdp_send_thread c now halt junk lp x ins))" and "length (tx_descs y) < 2 ^ 32"
  shows "unat (outstanding_tx y) + unat (tx_npkts y) = length (tx_descs y)"
proof -
  let ?s0 = "xdp_init c now halt junk x"
  have same: "iterate (xdp_body c) ins ?s0 = iterate (\<lambda>i. xdp_body c (peek_one i)) ins ?s0"
    by (rule iterate_cong) (use assms(1) in \<open>simp add: peek_one_id\<close>)
  have "tx_account (x_xsk ?s0)"
    using assms by (simp add: tx_account_def xdp_init_def Let_def)
  then have "tx_account (x_xsk (run_state (iterate (xdp_body c) ins ?s0)))"
    unfolding same by (rule xdp_accounting.inv_iterate)
  then have "tx_account y"
    using send_thread_state [of c now halt junk lp x ins] tx_account_update [OF _ assms(2)] assms(6) by auto
  with assms(7) show ?thesis by (simp add: tx_account_def)
qed

theorem afxdp_accounting_witness:
  "\<exists>s. afxdp_send_thread txrx_defaults (Timespec 10 5) 0 (zeros 64) 0 ex_xsk [ex_xin 7, ex_xin 8] = Running s \<and>
     unat (outstanding_tx (x_xsk s)) + unat (tx_npkts (x_xsk s)) = 2"
proof -
  obtain s where s: "afxdp_send_thread txrx_defaults (Timespec 10 5) 0 (zeros 64) 0 ex_xsk [ex_xin 7, ex_xin 8] = Running s"
    and d: "tx_descs (x_xsk s) = [(0, 64, 0), (4096, 64, 0)]"
    using ex_xdp_run by blast
  have "unat (outstanding_tx (x_xsk s)) + unat (tx_npkts (x_xsk s)) = length (tx_descs (x_xsk s))"
    by (rule afxdp_accounting [where ins = "[ex_xin 7, ex_xin 8]" and lp = 0 and x = ex_xsk and c = txrx_defaults
          and now = "Timespec 10 5" and halt = 0 and junk = "zeros 64"])
      (use s d in \<open>simp_all add: ex_xin_def ex_xsk_def\<close>)
  with s d show ?thesis by simp
qed

text \<open>
  Undisturbed, the sender runs through exactly the requested number of packets and ten more
  that flush the socket, and returns.
\<close>

theorem afxdp_sends_all:
  assumes "txrx_cfg_ok c" and "\<forall>i \<in> set ins. xdp_quiet i" and "unat (frames_to_send (opts c)) + 10 < length ins"
  shows "\<exists>s. afxdp_send_thread c now 0 junk lp x ins = Done s \<and>
           unat (x_seq s) = unat (frames_to_send (opts c)) + 10"
proof -
  let ?n = "unat (frames_to_send (opts c)) + 10" and ?s0 = "xdp_init c now 0 junk x"
  have fr: "unat (frames_to_send (opts c)) \<le> 10000000"
    using assms(1) by (simp add: txrx_cfg_ok_def txrx_opt_ok_def)
  have "\<exists>t. iterate (xdp_body c) (take ?n ins) ?s0 = Running t \<and> x_halt t = 0 \<and>
      x_i t = ucast (frames_to_send (opts c) + 10) \<and> x_seq t = x_seq ?s0 + of_nat (length (take ?n ins))"
    by (rule xdp_remaining [OF fr]) (use assms in \<open>auto simp: xdp_init_def Let_def dest: in_set_takeD\<close>)
  then obtain t where run: "iterate (xdp_body c) (take ?n ins) ?s0 = Running t" and t: "x_halt t = 0"
    "x_i t = ucast (frames_to_send (opts c) + 10)" "x_seq t = of_nat ?n"
    using assms(3) by (auto simp: xdp_init_def Let_def min_def)
  obtain j js where rest: "drop ?n ins = j # js"
    using assms(3) by (metis Cons_nth_drop_Suc)
  have "xdp_body c j t = Done (t\<lparr>x_halt := fold afxdp_sigint_handler (xi_sigs j) (x_halt t)\<rparr>)"
    using t by (simp add: xdp_body_def Let_def)
  moreover have "ins = take ?n ins @ j # js"
    using rest by (metis append_take_drop_id)
  ultimately have "iterate (xdp_body c) ins ?s0 = Done (t\<lparr>x_halt := fold afxdp_sigint_handler (xi_sigs j) (x_halt t)\<rparr>)"
    using iterate_append [of "xdp_body c" "take ?n ins" "j # js" ?s0] run by simp
  moreover have "unat (of_nat ?n :: u64) = ?n"
    using fr by (simp only: unat_of_nat) simp
  ultimately show ?thesis
    using t by (simp add: afxdp_send_thread_def del: of_nat_add of_nat_numeral)
qed

theorem afxdp_sends_all_witness:
  "\<exists>s. afxdp_send_thread txrx_defaults (Timespec 10 5) 0 (zeros 64) 0 ex_xsk (replicate 1011 (ex_xin 7)) = Done s \<and>
     unat (x_seq s) = 1010"
  using afxdp_sends_all [OF txrx_defaults_ok, of "replicate 1011 (ex_xin 7)" "Timespec 10 5" "zeros 64" 0 ex_xsk]
  by (simp add: xdp_quiet_def ex_xin_def txrx_defaults_def)

text \<open>
  The first packet is never counted. The sender numbers its packets from 0 and the receiver
  discards the sequence number 0, whatever else the frame holds.
\<close>

theorem afxdp_first_packet_dropped:
  assumes "pl_seq (packet_payload (mem_read m (unat a) 42)) = 0"
  shows "x_seq (xdp_init c now0 halt junk x) = 0 \<and>
         afxdp_recv_pkt m [(a, len, now)] [1] g = Some (Inr (g\<lparr>g_fill := g_fill g + 1, g_npkts := g_npkts g + 1\<rparr>))"
  using assms by (simp add: xdp_init_def Let_def afxdp_recv_pkt_def rx_frame_def rx_accepts_def)

theorem afxdp_first_packet_dropped_witness:
  "x_seq (xdp_init txrx_defaults (Timespec 10 5) 0 (zeros 64) ex_xsk) = 0 \<and>
   afxdp_recv_pkt (\<lambda>_. 0) [(256, 64, Timespec 12 9)] [1] \<lparr>g_rx_seq = 4, g_out = [], g_fill = 0, g_npkts = 0\<rparr> =
     Some (Inr \<lparr>g_rx_seq = 4, g_out = [], g_fill = 1, g_npkts = 1\<rparr>)"
proof -
  have "pl_seq (packet_payload (mem_read (\<lambda>_. 0) (unat (256 :: u64)) 42)) = 0"
    by (simp add: packet_payload_def custom_of_bytes_def get_bytes_def mem_read_def map_replicate_const
        u32_of_bytes_def PAYLOAD_OFF_def flip: replicate_append_same)
  from afxdp_first_packet_dropped [OF this, of txrx_defaults "Timespec 10 5" 0 "zeros 64" ex_xsk 64 "Timespec 12 9"
      "\<lparr>g_rx_seq = 4, g_out = [], g_fill = 0, g_npkts = 0\<rparr>"]
  show ?thesis by simp
qed

text \<open>
  Failures of the AF_XDP set-up are not reported. When creating the packet memory, filling
  the ring or creating the socket fails, the program does not leave with a failure status but
  dereferences a pointer that is not set yet; once it is set, the error exit reports success.
\<close>

theorem afxdp_setup_failure_crashes:
  assumes "xdp_mode_flags (xdp_mode opt) \<noteq> None" and "ua_memalign ua = 0" and "ua_calloc ua" and "xa_calloc xa"
    and "ua_create ua \<noteq> 0 \<or> ua_reserve ua \<noteq> uint (xo_frames_per_ring (x_opt opt)) \<or> xa_create xa \<noteq> 0 \<or> xa_query xa \<noteq> 0"
  shows "init_xdp_socket opt 0 ua xa = Inl X_crash \<and> afxdp_exit_with_error True = X_exit 0"
  using assms
  by (auto simp: init_xdp_socket_def create_umem_def create_xsk_info_def afxdp_exit_with_error_def
      xdpsock_cleanup_def Let_def split: option.splits)

theorem afxdp_setup_failure_crashes_witness:
  "init_xdp_socket (opts txrx_defaults) 0 ex_umem \<lparr>xa_calloc = True, xa_create = - 22, xa_query = 0\<rparr> = Inl X_crash \<and>
   afxdp_exit_with_error True = X_exit 0"
  by (rule afxdp_setup_failure_crashes)
    (simp_all add: ex_umem_def txrx_defaults_def xdp_mode_flags_def XDP_MODE_ZERO_COPY_def XDP_MODE_SKB_COPY_def
      XDP_MODE_NATIVE_COPY_def Let_def)

end
