(* ===== verification/Log_Files.thy ===== *)
theory Log_Files
  imports CLib
begin

text \<open>
  The handling of the \<^verbatim>\<open>ptp4l\<close> and \<^verbatim>\<open>phc2sys\<close> logs around a measurement: \<^verbatim>\<open>copy_file()\<close>,
  \<^verbatim>\<open>ts_log_start()\<close> and \<^verbatim>\<open>ts_log_stop()\<close> of \<^verbatim>\<open>src/txrx.c\<close> and the copies of them in
  \<^verbatim>\<open>src/opcua-tsn/multicallback_server.c\<close>, which differ in the check for missing names only.

  The file system is a map from names to contents. \<open>perm f w\<close> says whether \<open>f\<close> may be opened,
  for writing if \<open>w\<close>. Closing a file that could not be opened (\<^verbatim>\<open>fclose(NULL)\<close>) crashes the
  program: \<open>Fs_crash\<close>.
\<close>

type_synonym files = "string \<rightharpoonup> string"
type_synonym perms = "string \<Rightarrow> bool \<Rightarrow> bool"

datatype fs_res = Fs_ok files | Fs_crash files

section \<open>copy_file\<close>

text \<open>The copying loop: the rest of the source and what the destination holds so far.\<close>

fun copy_chars :: "string \<Rightarrow> string \<Rightarrow> string" where
  "copy_chars [] dst = dst"
| "copy_chars (ch # src) dst = copy_chars src (dst @ [ch])"

definition srv_copy_file :: "perms \<Rightarrow> string \<Rightarrow> string \<Rightarrow> bool \<Rightarrow> files \<Rightarrow> fs_res" where
  "srv_copy_file perm src_file dst_file clear_src fs =
     (if fs src_file = None \<or> \<not> perm src_file False then Fs_ok fs
      else if \<not> perm dst_file True then Fs_ok fs
      else
        let fs1 = fs(dst_file \<mapsto> []);
            fs2 = fs1(dst_file \<mapsto> copy_chars (the (fs1 src_file)) [])
        in if \<not> clear_src then Fs_ok fs2
           else if perm src_file True then Fs_ok (fs2(src_file \<mapsto> []))
           else Fs_crash fs2)"

definition copy_file :: "perms \<Rightarrow> string option \<Rightarrow> string option \<Rightarrow> bool \<Rightarrow> files \<Rightarrow> fs_res" where
  "copy_file perm src_file dst_file clear_src fs =
     (case (src_file, dst_file) of
        (Some s, Some d) \<Rightarrow> srv_copy_file perm s d clear_src fs
      | _ \<Rightarrow> Fs_ok fs)"

section \<open>ts_log_start, ts_log_stop\<close>

definition and_then :: "fs_res \<Rightarrow> (files \<Rightarrow> fs_res) \<Rightarrow> fs_res" where
  "and_then r f = (case r of Fs_ok fs \<Rightarrow> f fs | Fs_crash fs \<Rightarrow> Fs_crash fs)"

definition ptp4l_log :: string where "ptp4l_log = ''/var/log/ptp4l.log''"
definition phc2sys_log :: string where "phc2sys_log = ''/var/log/phc2sys.log''"
definition total_ptp4l_log :: string where "total_ptp4l_log = ''/var/log/total_ptp4l.log''"
definition total_phc2sys_log :: string where "total_phc2sys_log = ''/var/log/total_phc2sys.log''"
definition captured_ptp4l_log :: string where "captured_ptp4l_log = ''/var/log/captured_ptp4l.log''"
definition captured_phc2sys_log :: string where "captured_phc2sys_log = ''/var/log/captured_phc2sys.log''"

definition ts_log_start :: "perms \<Rightarrow> files \<Rightarrow> fs_res" where
  "ts_log_start perm fs =
     and_then (copy_file perm (Some ptp4l_log) (Some total_ptp4l_log) True fs)
       (copy_file perm (Some phc2sys_log) (Some total_phc2sys_log) True)"

definition ts_log_stop :: "perms \<Rightarrow> files \<Rightarrow> fs_res" where
  "ts_log_stop perm fs =
     and_then (copy_file perm (Some ptp4l_log) (Some captured_ptp4l_log) False fs)
       (copy_file perm (Some phc2sys_log) (Some captured_phc2sys_log) False)"

definition srv_ts_log_start :: "perms \<Rightarrow> files \<Rightarrow> fs_res" where
  "srv_ts_log_start perm fs =
     and_then (srv_copy_file perm ptp4l_log total_ptp4l_log True fs)
       (srv_copy_file perm phc2sys_log total_phc2sys_log True)"

definition srv_ts_log_stop :: "perms \<Rightarrow> files \<Rightarrow> fs_res" where
  "srv_ts_log_stop perm fs =
     and_then (srv_copy_file perm ptp4l_log captured_ptp4l_log False fs)
       (srv_copy_file perm phc2sys_log captured_phc2sys_log False)"

section \<open>Lemmas\<close>

lemma copy_chars_eq [simp]: "copy_chars src dst = dst @ src"
  by (induction src dst rule: copy_chars.induct) auto

lemma srv_copy_file_ok:
  assumes "fs s = Some txt" and "perm s False" and "perm s True" and "perm d True" and "s \<noteq> d"
  shows "srv_copy_file perm s d clear fs = Fs_ok (fs(d \<mapsto> txt, s \<mapsto> (if clear then [] else txt)))"
proof -
  have "fs(s \<mapsto> txt) = fs" using assms(1) by auto
  with assms show ?thesis by (auto simp: srv_copy_file_def Let_def fun_upd_twist)
qed

lemma log_names [simp]:
  "ptp4l_log \<noteq> phc2sys_log" "ptp4l_log \<noteq> total_ptp4l_log" "ptp4l_log \<noteq> total_phc2sys_log"
  "ptp4l_log \<noteq> captured_ptp4l_log" "ptp4l_log \<noteq> captured_phc2sys_log"
  "phc2sys_log \<noteq> total_ptp4l_log" "phc2sys_log \<noteq> total_phc2sys_log"
  "phc2sys_log \<noteq> captured_ptp4l_log" "phc2sys_log \<noteq> captured_phc2sys_log"
  "total_ptp4l_log \<noteq> total_phc2sys_log" "captured_ptp4l_log \<noteq> captured_phc2sys_log"
  by (simp_all add: ptp4l_log_def phc2sys_log_def total_ptp4l_log_def total_phc2sys_log_def
      captured_ptp4l_log_def captured_phc2sys_log_def)

lemma log_start_same: "ts_log_start = srv_ts_log_start" "ts_log_stop = srv_ts_log_stop"
  by (auto simp: fun_eq_iff ts_log_start_def srv_ts_log_start_def ts_log_stop_def
      srv_ts_log_stop_def copy_file_def and_then_def split: fs_res.splits)

lemma log_start_eq:
  assumes "fs ptp4l_log = Some a" and "fs phc2sys_log = Some b" and "\<And>f w. perm f w"
  shows "ts_log_start perm fs =
           Fs_ok (fs(total_ptp4l_log \<mapsto> a, ptp4l_log \<mapsto> [], total_phc2sys_log \<mapsto> b, phc2sys_log \<mapsto> []))"
  using assms log_names
  by (simp add: log_start_same srv_ts_log_start_def srv_copy_file_ok and_then_def not_sym)

lemma log_stop_eq:
  assumes "fs ptp4l_log = Some a" and "fs phc2sys_log = Some b" and "\<And>f w. perm f w"
  shows "\<exists>fs'. ts_log_stop perm fs = Fs_ok fs' \<and> fs' captured_ptp4l_log = Some a \<and>
           fs' captured_phc2sys_log = Some b"
  using assms log_names
  by (simp add: log_start_same srv_ts_log_stop_def srv_copy_file_ok and_then_def not_sym)

section \<open>Properties\<close>



text \<open>
  The total files do not accumulate. Although the code comments say that the destination is
  opened in append mode, it is truncated: after a second \<^verbatim>\<open>ts_log_start\<close> the total file holds the
  second log only.
\<close>

theorem log_total_overwritten:
  assumes "fs ptp4l_log = Some new" and "fs total_ptp4l_log = Some old" and "fs phc2sys_log = Some b"
    and "\<And>f w. perm f w"
  shows "\<exists>fs'. ts_log_start perm fs = Fs_ok fs' \<and> fs' total_ptp4l_log = Some new"
  using log_start_eq [OF assms(1,3,4)] log_names by (auto simp: not_sym)

theorem log_total_overwritten_witness:
  "\<exists>fs'. ts_log_start (\<lambda>_ _. True) [ptp4l_log \<mapsto> ''second'', total_ptp4l_log \<mapsto> ''first'', phc2sys_log \<mapsto> '''']
     = Fs_ok fs' \<and> fs' total_ptp4l_log = Some ''second''"
  by (rule log_total_overwritten [where old = "''first''" and b = "''''"]) (use log_names in \<open>simp_all add: not_sym\<close>)

text \<open>
  Without the right to write the log, clearing it crashes the program: the stream that could
  not be opened is closed all the same.
\<close>

theorem log_clear_crashes:
  assumes "fs s = Some txt" and "perm s False" and "\<not> perm s True" and "perm d True" and "s \<noteq> d"
  shows "copy_file perm (Some s) (Some d) True fs = Fs_crash (fs(d \<mapsto> txt))"
  using assms by (simp add: copy_file_def srv_copy_file_def Let_def)

theorem log_clear_crashes_witness:
  "copy_file (\<lambda>f w. \<not> (w \<and> f = ptp4l_log)) (Some ptp4l_log) (Some total_ptp4l_log) True [ptp4l_log \<mapsto> ''t''] =
     Fs_crash ([ptp4l_log \<mapsto> ''t''](total_ptp4l_log \<mapsto> ''t''))"
  by (rule log_clear_crashes) (use log_names in \<open>simp_all add: not_sym\<close>)

end
