(* ===== verification/Txrx_Main.thy ===== *)
theory Txrx_Main
  imports Txrx_Afpkt Txrx_Afxdp Log_Files
begin

text \<open>
  \<^verbatim>\<open>main\<close> of \<^verbatim>\<open>src/txrx.c\<close>: options, interface, and the four combinations of socket type and
  direction, with the log files set aside before and captured after the run. The receiving loops
  are in \<^verbatim>\<open>main\<close> itself.
\<close>

section \<open>The receiving loops\<close>

record rx_st =
  r_halt :: cint
  r_seq :: u32
  r_out :: "string list"

definition afpkt_rx_body :: "txrx_cfg \<Rightarrow> cint list \<times> recv_in \<Rightarrow> rx_st \<Rightarrow> (afp_stop, rx_st) run" where
  "afpkt_rx_body c i s0 =
     (let s = s0\<lparr>r_halt := fold afpkt_sigint_handler (fst i) (r_halt s0)\<rparr>
      in if r_halt s \<noteq> 0 then Done s
         else case afpkt_recv_pkt c (snd i) (r_seq s) of
                None \<Rightarrow> Exited Afp_oob s
              | Some r \<Rightarrow>
                  let s' = s\<lparr>r_seq := rr_seq r,
                             r_out := r_out s @ (case rr_line r of Some l \<Rightarrow> [l] | None \<Rightarrow> [])\<rparr>
                  in if r_seq s' \<ge> frames_to_send (opts c) then Done s' else Running s')"

text \<open>Per iteration: signals, the packet memory and the descriptors, what the reservations return.\<close>

record xrx_in =
  xr_sigs :: "cint list"
  xr_mem :: "nat \<Rightarrow> u8"
  xr_descs :: "(u64 \<times> u32 \<times> timespec) list"
  xr_rets :: "cint list"

text \<open>An iteration whose reservation never succeeds does not complete: it stays where it is.\<close>

definition afxdp_rx_body :: "txrx_cfg \<Rightarrow> xrx_in \<Rightarrow> cint \<times> xdp_rx \<Rightarrow> (xdp_stop, cint \<times> xdp_rx) run" where
  "afxdp_rx_body c i s =
     (let halt = fold afxdp_sigint_handler (xr_sigs i) (fst s)
      in if halt \<noteq> 0 then Done (halt, snd s)
         else case afxdp_recv_pkt (xr_mem i) (xr_descs i) (xr_rets i) (snd s) of
                None \<Rightarrow> Running (halt, snd s)
              | Some (Inl x) \<Rightarrow> Exited x (halt, snd s)
              | Some (Inr g) \<Rightarrow>
                  if g_rx_seq g \<ge> frames_to_send (opts c) then Done (halt, g) else Running (halt, g))"

section \<open>main\<close>

record txrx_world =
  w_ifindex :: "string \<Rightarrow> u32"
  w_strerror :: string
  w_perm :: perms
  w_files :: files
  w_files' :: "files \<Rightarrow> files"
  w_now :: timespec
  w_tx :: tx_answers
  w_sends :: "afp_in list"
  w_rx :: rx_answers
  w_recvs :: "(cint list \<times> recv_in) list"
  w_rlimit :: cint
  w_umem :: umem_answers
  w_xsk :: xsk_answers
  w_xsends :: "xdp_in list"
  w_xbuff :: bytes
  w_last_peek :: u32
  w_xrecvs :: "xrx_in list"

text \<open>
  How the program ends: an error exit, one of the three exits of \<^verbatim>\<open>argp_parse\<close>, a read outside an object, a crash, still in a loop, or a
  normal end with the descriptors closed and the files.
\<close>

datatype txrx_end =
    Tx_error string
  | Tx_unknown
  | Tx_usage
  | Tx_help
  | Tx_oob
  | Tx_crash
  | Tx_waiting
  | Tx_end "fd list" files

text \<open>The logs are captured, then \<^verbatim>\<open>main\<close> closes the socket.\<close>

definition afpkt_finish :: "txrx_world \<Rightarrow> fd list \<Rightarrow> fd \<Rightarrow> files \<Rightarrow> txrx_end" where
  "afpkt_finish w closed sock fs =
     (case ts_log_stop (w_perm w) (w_files' w fs) of
        Fs_crash _ \<Rightarrow> Tx_crash
      | Fs_ok fs' \<Rightarrow> Tx_end (closed @ [sock]) fs')"

text \<open>The address as \<^verbatim>\<open>main\<close> initialises it: \<^verbatim>\<open>AF_PACKET\<close>, the 802.1Q protocol and six bytes.\<close>

definition afpkt_sk_addr :: sockaddr_ll where
  "afpkt_sk_addr = \<lparr>sll_family = 17, sll_protocol = htons 0x8100, sll_ifindex = 0, sll_halen = 6, sll_addr = zeros 8\<rparr>"

definition afpkt_tx_main :: "txrx_cfg \<Rightarrow> txrx_world \<Rightarrow> files \<Rightarrow> txrx_end" where
  "afpkt_tx_main c w fs =
     (case init_tx_socket c afpkt_sk_addr (w_strerror w) (w_tx w) of
        Inl (msg, _) \<Rightarrow> Tx_error msg
      | Inr (sock, _) \<Rightarrow>
          (case (if enable_txtime (opts c) = 0 then afpkt_send_thread c sock (w_now w) 0 (w_sends w)
                 else afpkt_send_thread_etf c sock (w_now w) 0 (w_sends w)) of
             Running _ \<Rightarrow> Tx_waiting
           | Exited (Afp_exit msg) _ \<Rightarrow> Tx_error msg
           | Exited Afp_oob _ \<Rightarrow> Tx_oob
           | Done s \<Rightarrow> afpkt_finish w (f_closed s) sock fs))"

definition afpkt_rx_main :: "txrx_cfg \<Rightarrow> txrx_world \<Rightarrow> files \<Rightarrow> txrx_end" where
  "afpkt_rx_main c w fs =
     (case init_rx_socket 0xb62c True (case ifname (opts c) of Some n \<Rightarrow> n | None \<Rightarrow> []) (dst_mac_addr c)
             (w_strerror w) (w_rx w) of
        Inl (msg, _) \<Rightarrow> Tx_error msg
      | Inr (ret, sk, _) \<Rightarrow>
          let sock = (case sk of Some f \<Rightarrow> f | None \<Rightarrow> - 1)
          in case iterate (afpkt_rx_body c) (w_recvs w) \<lparr>r_halt = 0, r_seq = 0, r_out = []\<rparr> of
               Running _ \<Rightarrow> Tx_waiting
             | Exited (Afp_exit msg) _ \<Rightarrow> Tx_error msg
             | Exited Afp_oob _ \<Rightarrow> Tx_oob
             | Done s \<Rightarrow> afpkt_finish w [sock] sock fs)"

definition afxdp_stop_end :: "xdp_stop \<Rightarrow> txrx_end" where
  "afxdp_stop_end x = (case x of X_exit n \<Rightarrow> Tx_error [] | X_crash \<Rightarrow> Tx_crash)"

text \<open>After the run: the logs, then \<^verbatim>\<open>xdpsock_cleanup\<close>, which deletes the socket and exits.\<close>

definition afxdp_finish :: "txrx_world \<Rightarrow> files \<Rightarrow> txrx_end" where
  "afxdp_finish w fs =
     (case ts_log_stop (w_perm w) (w_files' w fs) of
        Fs_crash _ \<Rightarrow> Tx_crash
      | Fs_ok fs' \<Rightarrow> (case xdpsock_cleanup True of X_exit n \<Rightarrow> Tx_end [] fs' | X_crash \<Rightarrow> Tx_crash))"

definition afxdp_main :: "txrx_cfg \<Rightarrow> txrx_world \<Rightarrow> txrx_end" where
  "afxdp_main c w =
     (case init_xdp_socket (opts c) (w_rlimit w) (w_umem w) (w_xsk w) of
        Inl x \<Rightarrow> afxdp_stop_end x
      | Inr (opt, xsk) \<Rightarrow>
          let c' = c\<lparr>opts := opt\<rparr>
          in case ts_log_start (w_perm w) (w_files w) of
               Fs_crash _ \<Rightarrow> Tx_crash
             | Fs_ok fs \<Rightarrow>
                 if app_mode opt = MODE_TX then
                   (case afxdp_send_thread c' (w_now w) 0 (w_xbuff w) (w_last_peek w) xsk (w_xsends w) of
                      Running _ \<Rightarrow> Tx_waiting
                    | Exited x _ \<Rightarrow> afxdp_stop_end x
                    | Done s \<Rightarrow> afxdp_finish w fs)
                 else if app_mode opt = MODE_RX then
                   (case iterate (afxdp_rx_body c') (w_xrecvs w)
                           (0, \<lparr>g_rx_seq = 0, g_out = [], g_fill = 0, g_npkts = 0\<rparr>) of
                      Running _ \<Rightarrow> Tx_waiting
                    | Exited x _ \<Rightarrow> afxdp_stop_end x
                    | Done s \<Rightarrow> afxdp_finish w fs)
                 else Tx_error (exit_error ''Invalid AF_XDP mode: Please specify -t, or -r.''))"

definition txrx_main :: "string list \<Rightarrow> txrx_world \<Rightarrow> txrx_end" where
  "txrx_main argv w =
     (case argp_parse txrx_table txrx_parser argv txrx_defaults of
        ArgpUnknown \<Rightarrow> Tx_unknown
      | ArgpUsage \<Rightarrow> Tx_usage
      | ArgpHelp \<Rightarrow> Tx_help
      | ArgpExit msg \<Rightarrow> Tx_error msg
      | ArgpOk c0 \<Rightarrow>
          (case ifname (opts c0) of
             None \<Rightarrow> Tx_error (exit_error ''Please specify interface using -i\<newline>'')
           | Some name \<Rightarrow>
               let c = c0\<lparr>opts := (opts c0)\<lparr>ifindex := w_ifindex w name\<rparr>\<rparr>
               in if ifindex (opts c) = 0
                  then Tx_error (''ERROR: interface '' @ [CHR 0x22] @ name @ [CHR 0x22] @ '' do not exist\<newline>'')
                  else if socket_mode (opts c) = MODE_AFPKT then
                    (case ts_log_start (w_perm w) (w_files w) of
                       Fs_crash _ \<Rightarrow> Tx_crash
                     | Fs_ok fs \<Rightarrow>
                         if app_mode (opts c) = MODE_TX then afpkt_tx_main c w fs
                         else if app_mode (opts c) = MODE_RX then afpkt_rx_main c w fs
                         else Tx_error (exit_error ''Invalid AF_PKT mode: Please specify -t, or -r.''))
                  else if socket_mode (opts c) = MODE_AFXDP then afxdp_main c w
                  else Tx_error (exit_error ''Invalid socket type: Please specify -X or -P.'')))"

section \<open>Lemmas\<close>

lemma rx_body_running:
  "afpkt_rx_body c i s = Running s' \<Longrightarrow> r_seq s' < frames_to_send (opts c)"
  by (auto simp: afpkt_rx_body_def Let_def split: if_splits option.splits)

lemma rx_body_done:
  "afpkt_rx_body c i s = Done s' \<Longrightarrow> r_halt s' \<noteq> 0 \<or> frames_to_send (opts c) \<le> r_seq s'"
  by (auto simp: afpkt_rx_body_def Let_def split: if_splits option.splits)

lemma rx_loop_ends:
  "iterate (afpkt_rx_body c) is s = Done s' \<Longrightarrow> r_halt s' \<noteq> 0 \<or> frames_to_send (opts c) \<le> r_seq s'"
  by (induction "is" arbitrary: s) (auto split: run.splits dest: rx_body_done)

text \<open>A packet with its payload at the usual place, as one iteration of the receiving loop.\<close>

definition rx_of :: "(bytes \<Rightarrow> bytes) \<Rightarrow> bytes \<Rightarrow> timespec \<Rightarrow> bytes \<Rightarrow> cint list \<times> recv_in" where
  "rx_of path junk now m = ([], \<lparr>rv_data = Some (path m), rv_cmsgs = [], rv_now = now, rv_junk = junk\<rparr>)"

lemma rx_body_accepts:
  assumes "vlan_path path" and "length junk = MSG_BUFLEN" and "28 \<le> length m" and "enable_hwts (opts d) = 0"
    and "tx_queue (afp_payload m) \<le> 8" and "pl_seq (afp_payload m) \<le> 50000000" and "r_halt s = 0"
  shows "\<exists>l. afpkt_rx_body d (rx_of path junk now m) s =
     (let s' = s\<lparr>r_seq := pl_seq (afp_payload m), r_out := r_out s @ [l]\<rparr>
      in if frames_to_send (opts d) \<le> pl_seq (afp_payload m) then Done s' else Running s')"
proof -
  have "length (path m) = 12 + (length m - 2)"
    using assms(1) unfolding vlan_path_def by blast
  then have ne: "path m \<noteq> []" by auto
  have p: "recv_payload \<lparr>rv_data = Some (path m), rv_cmsgs = [], rv_now = now, rv_junk = junk\<rparr> (path m) = afp_payload m"
    by (rule recv_payload_path) (use assms in simp_all)
  have "\<not> tx_queue (afp_payload m) > 8" "\<not> pl_seq (afp_payload m) > 50 * 1000 * 1000"
    using assms(5,6) by (simp_all add: not_less)
  then show ?thesis
    using ne p assms(4,7) by (cases s) (auto simp: afpkt_rx_body_def afpkt_recv_pkt_def rx_of_def Let_def)
qed

lemma rx_loop_stream:
  assumes "vlan_path path" and "length junk = MSG_BUFLEN" and "enable_hwts (opts d) = 0" and "tx_queue p \<le> 8"
    and "unat (frames_to_send (opts d)) \<le> 10000000"
  shows "ms \<noteq> [] \<Longrightarrow> list_all (\<lambda>m. 28 \<le> length m) ms \<Longrightarrow> map afp_payload ms = stamped p sq is \<Longrightarrow>
     unat sq + length ms = unat (frames_to_send (opts d)) + 1 \<Longrightarrow> r_halt s = 0 \<Longrightarrow>
     \<exists>s'. iterate (afpkt_rx_body d) (map (rx_of path junk now) ms) s = Done s' \<and>
        r_seq s' = frames_to_send (opts d) \<and> length (r_out s') = length (r_out s) + length ms"
proof (induction ms arbitrary: sq "is" s)
  case Nil
  then show ?case by simp
next
  case (Cons m ms)
  obtain i is' where is': "is = i # is'" and pay: "pl_seq (afp_payload m) = sq" "tx_queue (afp_payload m) = tx_queue p"
    and rest: "map afp_payload ms = stamped p (sq + 1) is'"
    using Cons.prems(3) by (cases "is") auto
  have le: "unat sq \<le> unat (frames_to_send (opts d))"
    using Cons.prems(4) by simp
  then have small: "sq \<le> 50000000"
    using assms(5) by (simp add: word_le_nat_alt)
  obtain l where step: "afpkt_rx_body d (rx_of path junk now m) s =
     (let s' = s\<lparr>r_seq := sq, r_out := r_out s @ [l]\<rparr>
      in if frames_to_send (opts d) \<le> sq then Done s' else Running s')"
    using rx_body_accepts [OF assms(1,2), of m d s now] Cons.prems assms(3,4) pay small by auto
  show ?case
  proof (cases ms)
    case Nil
    then have "unat sq = unat (frames_to_send (opts d))"
      using Cons.prems(4) by simp
    then have "sq = frames_to_send (opts d)"
      by (rule unsigned_word_eqI)
    with Nil step show ?thesis by (simp add: Let_def)
  next
    case (Cons m' ms')
    then have lt: "unat sq < unat (frames_to_send (opts d))"
      using Cons.prems(4) by simp
    then have nle: "\<not> frames_to_send (opts d) \<le> sq" and suc: "unat (sq + 1) = unat sq + 1"
      using assms(5) by (simp_all add: word_le_nat_alt unat_word_ariths)
    have "\<exists>s'. iterate (afpkt_rx_body d) (map (rx_of path junk now) ms) (s\<lparr>r_seq := sq, r_out := r_out s @ [l]\<rparr>) = Done s' \<and>
        r_seq s' = frames_to_send (opts d) \<and> length (r_out s') = length (r_out s @ [l]) + length ms"
      using Cons.IH [OF _ _ rest, of "s\<lparr>r_seq := sq, r_out := r_out s @ [l]\<rparr>"] Cons Cons.prems suc by simp
    with step nle show ?thesis by (simp add: Let_def)
  qed
qed

lemma length_stamped [simp]: "length (stamped p sq is) = length is"
  by (induction p sq "is" rule: stamped.induct) auto

text \<open>The sending loops do not close the socket themselves.\<close>

lemma afp_report_closed: "f_closed (run_state (afp_report c i tsA s)) = f_closed s"
  by (auto simp: afp_report_def Let_def split: option.split)

interpretation afp_open: inv_loop "afp_body c" "\<lambda>s. f_closed s = []" for c
  by unfold_locales (simp add: afp_body_def Let_def afp_stamp_def afp_next_def afp_report_closed)

interpretation etf_open: inv_loop "afp_body_etf c" "\<lambda>s. f_closed s = []" for c
  by unfold_locales (simp add: afp_body_etf_def Let_def afp_stamp_def afp_next_def afp_report_closed)

lemma send_threads_close:
  "afpkt_send_thread c sock now halt is = Done s \<Longrightarrow> f_closed s = [sock]"
  "afpkt_send_thread_etf c sock now halt is = Done s \<Longrightarrow> f_closed s = [sock]"
proof -
  have init: "f_closed (afp_init c t halt) = []" for t
    by (simp add: afp_init_def)
  show "afpkt_send_thread c sock now halt is = Done s \<Longrightarrow> f_closed s = [sock]"
    using afp_open.inv_done [OF init]
    by (auto simp: afpkt_send_thread_def close_after_def split: run.splits)
  show "afpkt_send_thread_etf c sock now halt is = Done s \<Longrightarrow> f_closed s = [sock]"
    using etf_open.inv_done [OF init]
    by (auto simp: afpkt_send_thread_etf_def close_after_def split: run.splits)
qed

lemma afpkt_finish_closes: "afpkt_finish w closed sock fs = Tx_end cl fs' \<Longrightarrow> cl = closed @ [sock]"
  by (auto simp: afpkt_finish_def split: fs_res.splits)

lemma afpkt_tx_closes: "afpkt_tx_main c w fs = Tx_end cl fs' \<Longrightarrow> \<exists>f. cl = [f, f]"
  by (auto simp: afpkt_tx_main_def split: sum.splits run.splits afp_stop.splits if_splits
      dest!: afpkt_finish_closes send_threads_close)

lemma afpkt_rx_closes: "afpkt_rx_main c w fs = Tx_end cl fs' \<Longrightarrow> \<exists>f. cl = [f, f]"
  by (auto simp: afpkt_rx_main_def Let_def split: sum.splits run.splits afp_stop.splits
      dest!: afpkt_finish_closes)

lemma afxdp_closes: "afxdp_main c w = Tx_end cl fs' \<Longrightarrow> cl = []"
  by (auto simp: afxdp_main_def afxdp_stop_end_def afxdp_finish_def xdpsock_cleanup_def Let_def
      split: sum.splits run.splits xdp_stop.splits fs_res.splits if_splits)

section \<open>Properties\<close>



text \<open>
  A normal AF_PACKET run closes its socket twice. Sender and receiving branch close it when
  they are done, and \<^verbatim>\<open>main\<close> closes the same descriptor number again.
\<close>

theorem txrx_closes_twice:
  assumes "txrx_main argv w = Tx_end closed fs"
  shows "closed = [] \<or> (\<exists>f. closed = [f, f])"
  using assms
  by (auto simp: txrx_main_def Let_def split: argp_res.splits option.splits if_splits fs_res.splits
      dest: afpkt_tx_closes afpkt_rx_closes afxdp_closes)

definition ex_txrx_world :: txrx_world where
  "ex_txrx_world =
     \<lparr>w_ifindex = (\<lambda>_. 2), w_strerror = [], w_perm = (\<lambda>_ _. True), w_files = (\<lambda>_. None), w_files' = (\<lambda>f. f),
      w_now = Timespec 10 5,
      w_tx = \<lparr>tx_socket = 4, tx_prio = 0, tx_ioctl = 0, tx_timestamping = 0, tx_txtime = 0\<rparr>,
      w_sends = [(ex_in 1)\<lparr>in_sleep := 4\<rparr>],
      w_rx = \<lparr>rx_socket = - 1, rx_ifindex_ret = 0, rx_ifindex = 2, rx_rcvbuf = 0, rx_bind = 0,
              rx_membership = 0, rx_ioctl = 0, rx_timestamping = 0\<rparr>,
      w_recvs = [([], \<lparr>rv_data = None, rv_cmsgs = [], rv_now = Timespec 13 0, rv_junk = zeros 1500\<rparr>)],
      w_rlimit = 0, w_umem = ex_umem, w_xsk = \<lparr>xa_calloc = True, xa_create = 0, xa_query = 0\<rparr>,
      w_xsends = [], w_xbuff = [], w_last_peek = 0, w_xrecvs = []\<rparr>"

theorem txrx_closes_twice_witness:
  "\<exists>fs. txrx_main [''-i'', ''eth0'', ''-Pt''] ex_txrx_world = Tx_end [4, 4] fs \<and>
     ([4, 4 :: fd] = [] \<or> (\<exists>f. [4, 4 :: fd] = [f, f]))"
proof -
  let ?argv = "[''-i'', ''eth0'', ''-Pt'']"
  have "argp_scan txrx_table False ?argv =
      [Event (Key (CHR ''i'')) (Some ''eth0''), Event (Key (CHR ''P'')) None, Event (Key (CHR ''t'')) None]"
    by code_simp
  then have "\<exists>fs. txrx_main ?argv ex_txrx_world = Tx_end [4, 4] fs"
    by (simp add: txrx_main_def argp_parse_def txrx_parser_def set_opt_def ex_txrx_world_def MODE_AFPKT_def MODE_TX_def
        afpkt_tx_main_def init_tx_socket_def afpkt_send_thread_def close_after_def afp_body_def afp_init_def
        ex_in_def txrx_defaults_def afpkt_finish_def ts_log_start_def ts_log_stop_def copy_file_def
        srv_copy_file_def and_then_def Let_def)
  then obtain fs where fs: "txrx_main ?argv ex_txrx_world = Tx_end [4, 4] fs" ..
  from txrx_closes_twice [OF fs] fs show ?thesis by blast
qed

text \<open>
  A receiver whose socket could not be opened does not stop. The failure of
  \<^verbatim>\<open>init_rx_socket\<close> is only reported; the loop polls the descriptor -1, gets no data, and runs
  until a signal arrives.
\<close>

theorem afpkt_rx_spins_after_failure:
  assumes "rx_socket (w_rx w) < 0" and "frames_to_send (opts c) \<noteq> 0"
    and "\<forall>i \<in> set (w_recvs w). fst i = [] \<and> rv_data (snd i) = None"
  shows "afpkt_rx_main c w fs = Tx_waiting"
proof -
  have spin: "\<forall>i \<in> set is. fst i = [] \<and> rv_data (snd i) = None \<Longrightarrow>
      iterate (afpkt_rx_body c) is \<lparr>r_halt = 0, r_seq = 0, r_out = []\<rparr> = Running \<lparr>r_halt = 0, r_seq = 0, r_out = []\<rparr>" for "is"
    using assms(2) by (induction "is") (auto simp: afpkt_rx_body_def afpkt_recv_pkt_def)
  show ?thesis
    using assms(1) spin [OF assms(3)] by (simp add: afpkt_rx_main_def init_rx_socket_def Let_def)
qed

theorem afpkt_rx_spins_after_failure_witness:
  "afpkt_rx_main txrx_defaults ex_txrx_world (\<lambda>_. None) = Tx_waiting"
  by (rule afpkt_rx_spins_after_failure) (simp_all add: ex_txrx_world_def txrx_defaults_def)

end
