(* ===== verification/Txrx_Xdp_Run.thy ===== *)
theory Txrx_Xdp_Run
  imports Txrx_Main
begin

text \<open>
  Whole runs of the AF_XDP sender of \<^verbatim>\<open>src/txrx-afxdp.c\<close>, and a sender and a receiver together: the
  schedule of the descriptors, how long a frame stays in the packet memory after its descriptor was
  submitted, what happens to it when the ring is full, and a measurement from its first packet to the end
  of both programs.
\<close>

section \<open>A frame on the wire\<close>

lemma mem_read_take: "n \<le> N \<Longrightarrow> take n (mem_read m off N) = mem_read m off n"
  using mem_read_slice [of 0 n N m off] by (simp add: get_bytes_def)

text \<open>The first 42 bytes of a frame that carries the measurement payload of an iteration.\<close>

definition wire_frame :: "txrx_cfg \<Rightarrow> xdp_in \<Rightarrow> u64 \<Rightarrow> bytes \<Rightarrow> bool" where
  "wire_frame c i sq f \<longleftrightarrow>
     length f = 42 \<and> take 18 f = take 18 (setup_tsn_vlan_packet c) \<and>
     tx_queue (packet_payload f) = ucast (xo_queue (x_opt (opts c))) \<and>
     pl_seq (packet_payload f) = ucast sq \<and> tx_timestampA (packet_payload f) = get_time_nanosec (xi_now i)"

lemma wire_frame_written:
  assumes "xdp_inv c s" and "xdp_body c i s = Running s'"
    and "enable_poll (opts c) = 0 \<or> 0 < xi_poll i \<and> xi_pollout i"
  shows "wire_frame c i (x_seq s) (mem_read (buffer (pktbuff (x_xsk s'))) (unat (tx_addr (x_xsk s))) 42)"
proof -
  let ?m = "buffer (pktbuff (x_xsk s'))" and ?a = "unat (tx_addr (x_xsk s))"
  note writes = xdp_body_writes [OF assms]
  have lb: "24 \<le> length (x_buff s)"
    using assms(1) cfg_packet_size [of c] by (auto simp: xdp_inv_def)
  have "packet_payload (mem_read ?m ?a 42) =
      custom_of_bytes (xdp_buff (opts c) (ucast (x_seq s)) (get_time_nanosec (xi_now i)) (x_buff s))"
    using writes(2) by (simp add: packet_payload_def PAYLOAD_OFF_def mem_read_drop)
  then show ?thesis
    using writes(1) by (simp add: wire_frame_def mem_read_take xdp_buff_payload [OF lb])
qed

lemma wire_frame_sent:
  assumes "xdp_inv c s" and "xdp_body c i s = Running s'" and "submits (opts c) i"
  shows "wire_frame c i (x_seq s) (mem_read (buffer (pktbuff (x_xsk s'))) (unat (tx_addr (x_xsk s))) 42)"
  by (rule wire_frame_written [OF assms(1,2)]) (use assms(3) in \<open>simp add: submits_def\<close>)

text \<open>What the receiver prints for such a frame; the hardware time stamp is in the bytes before it.\<close>

definition xdp_report :: "txrx_cfg \<Rightarrow> xdp_in \<Rightarrow> nat \<Rightarrow> (nat \<Rightarrow> u8) \<Rightarrow> u64 \<Rightarrow> timespec \<Rightarrow> string" where
  "xdp_report c i k m a now =
     (let t = get_time_nanosec (xi_now i); d = get_time_nanosec now
      in show_nat (unat (d - t)) @ tab @ show_nat k @ tab @ show_nat (unat (xo_queue (x_opt (opts c)))) @ tab @
         show_nat (unat t) @ tab @ show_nat (unat (u64_of_bytes (mem_read m (unat a - 8) 8))) @ tab @
         show_nat (unat d) @ ''\<newline>'')"

lemma wire_frame_accepted:
  assumes "txrx_cfg_ok c" and "wire_frame c i sq f" and "unat sq < 50000000"
  shows "rx_accepts f \<longleftrightarrow> 0 < unat sq"
proof -
  have seq: "unat (ucast sq :: u32) = unat sq"
    using assms(3) by (simp add: unsigned_ucast_eq take_bit_eq_mod)
  have "get_bytes off n f = get_bytes off n (take 18 (setup_tsn_vlan_packet c))" if "off + n \<le> 18" for off n
    using that assms(2) get_bytes_take [of off n 18 f] by (simp add: wire_frame_def)
  then have hdr: "get_bytes 12 2 f = [0x81, 0x00]" "get_bytes 16 2 f = [0xb6, 0x2c]"
    using setup_types [OF assms(1)] by (simp_all add: get_bytes_take)
  have prio: "unat (p div 32) < 8" for p :: u8
    using unat_bounds(1) [of p] by (simp add: unat_div)
  show ?thesis
    using assms(2,3) seq
    by (simp add: rx_accepts_def Let_def hdr wire_frame_def prio u16_of_bytes_def htons_def bytes_of_u16_def le_enc_2
        word_less_nat_alt)
qed

lemma wire_frame_received:
  assumes "txrx_cfg_ok c" and "wire_frame c i sq (mem_read m (unat a) 42)" and "unat sq < 50000000" and "len \<noteq> 0"
  shows "afxdp_recv_pkt m [(a, len, now)] (1 # rets) g =
    Some (Inr ((if 0 < unat sq
                then g\<lparr>g_out := g_out g @ [xdp_report c i (unat sq) m a now], g_rx_seq := ucast sq\<rparr> else g)
               \<lparr>g_fill := g_fill g + 1, g_npkts := g_npkts g + 1\<rparr>))"
proof -
  have seq: "unat (ucast sq :: u32) = unat sq"
    using assms(3) by (simp add: unsigned_ucast_eq take_bit_eq_mod)
  show ?thesis
    using assms(2,4) seq
    by (simp add: afxdp_recv_pkt_def rx_frame_def rx_line_def Let_def wire_frame_accepted [OF assms(1-3)] wire_frame_def
        xdp_report_def unat_ucast_u8_u32)
qed

section \<open>Runs in which every packet is submitted\<close>

text \<open>The k-th descriptor of a run from a state: frames in turn, launch times on the grid.\<close>

definition desc_at :: "txrx_cfg \<Rightarrow> xdp_st \<Rightarrow> nat \<Rightarrow> u64 \<times> u32 \<times> u64" where
  "desc_at c s k =
     (of_nat ((unat (cur_tx (x_xsk s)) + k) mod 4096 * 4096), packet_size (opts c),
      if enable_txtime (opts c) = 0 then 0 else x_ts s + of_nat k * ucast (interval_ns (opts c)))"

lemma tx_addr_of_nat:
  assumes "unat (cur_tx x) < 4096"
  shows "tx_addr x = of_nat (unat (cur_tx x) * 4096)"
  unfolding word_unat_eq_iff unat_tx_addr [OF assms] unat_of_nat using assms by simp

lemma xdp_inv_step: "xdp_inv c s \<Longrightarrow> xdp_body c i s = Running s' \<Longrightarrow> xdp_inv c s'"
  using xdp_sending.inv_body [of c s i] by simp

interpretation xdp_seq: counting_loop "xdp_body c" "\<lambda>_. True" x_seq 1 for c
  by unfold_locales (use xdp_body_running in auto)

lemma submit_next:
  assumes "xdp_inv c s" and "xdp_body c i s = Running s'" and "submits (opts c) i"
  shows "unat (cur_tx (x_xsk s')) = (unat (cur_tx (x_xsk s)) + 1) mod 4096"
proof -
  have cur: "unat (cur_tx (x_xsk s)) < 4096" and ring: "(ucast (xo_frames_per_ring (x_opt (opts c))) :: u32) = 4096"
    using assms(1) by (simp_all add: xdp_inv_def xsk_ok_def txrx_cfg_ok_def txrx_opt_ok_def)
  have "cur_tx (x_xsk s') = (cur_tx (x_xsk s) + 1) mod 4096"
    using assms(2,3) ring
    by (auto simp: xdp_body_def afxdp_send_pkt_def submits_def Let_def tx_submit_def split: if_splits)
  then show ?thesis
    using cur by (simp add: unat_mod unat_word_ariths)
qed

lemma submitted_descs:
  "xdp_inv c s \<Longrightarrow> \<forall>i \<in> set is. submits (opts c) i \<Longrightarrow> iterate (xdp_body c) is s = Running s' \<Longrightarrow>
     tx_descs (x_xsk s') = tx_descs (x_xsk s) @ map (desc_at c s) [0..<length is] \<and>
     unat (cur_tx (x_xsk s')) = (unat (cur_tx (x_xsk s)) + length is) mod 4096"
proof (induction "is" arbitrary: s)
  case Nil
  then show ?case by (simp add: xdp_inv_def xsk_ok_def)
next
  case (Cons i "is")
  then obtain t where t: "xdp_body c i s = Running t" and it: "iterate (xdp_body c) is t = Running s'"
    by (auto split: run.splits)
  have sub: "submits (opts c) i" using Cons.prems(2) by simp
  have inv: "xdp_inv c t"
    using xdp_inv_step [OF Cons.prems(1) t] .
  note next_cur = submit_next [OF Cons.prems(1) t sub]
  have cur: "unat (cur_tx (x_xsk s)) < 4096"
    using Cons.prems(1) by (simp add: xdp_inv_def xsk_ok_def)
  have first: "tx_descs (x_xsk t) = tx_descs (x_xsk s) @ [desc_at c s 0]"
    using xdp_body_submits [OF t sub] cur by (simp add: desc_at_def tx_addr_of_nat)
  have "desc_at c t k = desc_at c s (Suc k)" for k
    using xdp_body_running [OF t] by (simp add: desc_at_def next_cur algebra_simps mod_simps)
  then have "map (desc_at c s) [0..<Suc (length is)] = desc_at c s 0 # map (desc_at c t) [0..<length is]"
    by (simp add: upt_conv_Cons map_Suc_upt [symmetric] comp_def del: upt_Suc)
  then show ?case
    using Cons.IH [OF inv _ it] Cons.prems(2) first next_cur by (simp add: mod_simps del: upt_Suc)
qed

section \<open>Frames that wait for transmission\<close>

text \<open>An iteration, whether it submits or not, writes at most into the current frame.\<close>

lemma other_frames:
  assumes "xdp_inv c s" and "xdp_body c i s = Running s'" and "j < 4096" and "j \<noteq> unat (cur_tx (x_xsk s))"
  shows "mem_read (buffer (pktbuff (x_xsk s'))) (j * 4096) 4096 = mem_read (buffer (pktbuff (x_xsk s))) (j * 4096) 4096"
proof -
  let ?cur = "unat (cur_tx (x_xsk s))"
  let ?b = "xdp_buff (opts c) (ucast (x_seq s)) (get_time_nanosec (xi_now i)) (x_buff s)"
  let ?bs = "take (unat (packet_size (opts c) - 18)) ?b"
  have ok: "txrx_cfg_ok c" and cur: "?cur < 4096" and lb: "length (x_buff s) = unat (packet_size (opts c))"
    using assms(1) by (simp_all add: xdp_inv_def xsk_ok_def)
  have "length ?bs \<le> 1500"
    using cfg_packet_size [OF ok] lb by (auto simp: length_xdp_buff intro: min.coboundedI1)
  moreover have "j * 4096 + 4096 \<le> ?cur * 4096 \<or> ?cur * 4096 + 4096 \<le> j * 4096"
    using assms(4) by linarith
  ultimately have "mem_read (mem_write (?cur * 4096 + 18) ?bs m) (j * 4096) 4096 = mem_read m (j * 4096) 4096" for m
    by (intro mem_read_other) linarith
  then show ?thesis
    using assms(2) cur
    by (auto simp: xdp_body_def afxdp_send_pkt_def Let_def tx_submit_def unat_tx_addr split: if_splits)
qed

lemma cur_advances:
  assumes "xdp_inv c s" and "xdp_body c i s = Running s'"
  shows "unat (cur_tx (x_xsk s')) = unat (cur_tx (x_xsk s)) \<or>
         unat (cur_tx (x_xsk s')) = (unat (cur_tx (x_xsk s)) + 1) mod 4096"
proof (cases "submits (opts c) i")
  case True
  then show ?thesis using submit_next [OF assms] by simp
next
  case False
  then show ?thesis
    using assms(2)
    by (auto simp: xdp_body_def afxdp_send_pkt_def submits_def Let_def split: if_splits)
qed

lemma frame_kept:
  "xdp_inv c s \<Longrightarrow> iterate (xdp_body c) is s = Running s' \<Longrightarrow> j < 4096 \<Longrightarrow>
     unat (cur_tx (x_xsk s)) = (j + 1 + e) mod 4096 \<Longrightarrow> e + length is \<le> 4095 \<Longrightarrow>
     mem_read (buffer (pktbuff (x_xsk s'))) (j * 4096) 4096 = mem_read (buffer (pktbuff (x_xsk s))) (j * 4096) 4096"
proof (induction "is" arbitrary: s e)
  case Nil
  then show ?case by simp
next
  case (Cons i "is")
  then obtain t where t: "xdp_body c i s = Running t" and it: "iterate (xdp_body c) is t = Running s'"
    by (auto split: run.splits)
  have inv: "xdp_inv c t"
    using xdp_inv_step [OF Cons.prems(1) t] .
  have "j \<noteq> (j + 1 + e) mod 4096"
  proof
    assume "j = (j + 1 + e) mod 4096"
    then have "4096 dvd 1 + e"
      using Cons.prems(3) by (metis add.assoc mod_eq_dvd_iff_nat add_diff_cancel_left' le_add1 mod_less)
    with Cons.prems(5) show False by (auto dest: dvd_imp_le)
  qed
  then have same: "mem_read (buffer (pktbuff (x_xsk t))) (j * 4096) 4096 = mem_read (buffer (pktbuff (x_xsk s))) (j * 4096) 4096"
    using other_frames [OF Cons.prems(1) t Cons.prems(3)] Cons.prems(4) by simp
  have "\<exists>e'. e' \<le> e + 1 \<and> unat (cur_tx (x_xsk t)) = (j + 1 + e') mod 4096"
    using cur_advances [OF Cons.prems(1) t] Cons.prems(4)
    by (auto simp: mod_simps intro: exI [of _ e] exI [of _ "e + 1"])
  then obtain e' where "e' \<le> e + 1" and "unat (cur_tx (x_xsk t)) = (j + 1 + e') mod 4096" by blast
  then show ?case
    using Cons.IH [OF inv it Cons.prems(3)] Cons.prems(5) same by simp
qed

section \<open>A sender and a receiver\<close>

text \<open>The frames of a run, as they are in the packet memory when their descriptors are submitted.\<close>

fun xdp_frames :: "txrx_cfg \<Rightarrow> xdp_in list \<Rightarrow> xdp_st \<Rightarrow> bytes list" where
  "xdp_frames c [] s = []"
| "xdp_frames c (i # is) s =
     (case xdp_body c i s of
        Running s' \<Rightarrow> mem_read (buffer (pktbuff (x_xsk s'))) (unat (tx_addr (x_xsk s))) 42 # xdp_frames c is s'
      | _ \<Rightarrow> [])"

lemma xdp_frames_wire:
  "xdp_inv c s \<Longrightarrow> \<forall>i \<in> set is. submits (opts c) i \<Longrightarrow> iterate (xdp_body c) is s = Running s' \<Longrightarrow>
     length (xdp_frames c is s) = length is \<and>
     (\<forall>k < length is. wire_frame c (is ! k) (x_seq s + of_nat k) (xdp_frames c is s ! k))"
proof (induction "is" arbitrary: s)
  case Nil
  then show ?case by simp
next
  case (Cons i "is")
  then obtain t where t: "xdp_body c i s = Running t" and it: "iterate (xdp_body c) is t = Running s'"
    by (auto split: run.splits)
  have first: "wire_frame c i (x_seq s) (mem_read (buffer (pktbuff (x_xsk t))) (unat (tx_addr (x_xsk s))) 42)"
    using wire_frame_sent [OF Cons.prems(1) t] Cons.prems(2) by simp
  have "x_seq t = x_seq s + 1"
    using xdp_body_running [OF t] by simp
  with Cons.IH [OF xdp_inv_step [OF Cons.prems(1) t] _ it] Cons.prems(2)
  have rest: "length (xdp_frames c is t) = length is"
    "\<forall>k < length is. wire_frame c (is ! k) (x_seq s + of_nat (Suc k)) (xdp_frames c is t ! k)"
    by (simp_all add: algebra_simps)
  show ?case
    using t first rest by (auto simp: nth_Cons less_Suc_eq_0_disj split: nat.split)
qed

text \<open>An iteration of the receiver that finds a frame in its own packet memory.\<close>

definition carries :: "xrx_in \<Rightarrow> bytes \<Rightarrow> bool" where
  "carries r f \<longleftrightarrow>
     (\<exists>a len now rets. xr_descs r = [(a, len, now)] \<and> len \<noteq> 0 \<and> mem_read (xr_mem r) (unat a) 42 = f \<and> xr_rets r = 1 # rets)"

definition report_of :: "txrx_cfg \<Rightarrow> xdp_in \<Rightarrow> nat \<Rightarrow> xrx_in \<Rightarrow> string" where
  "report_of c i k r = (case hd (xr_descs r) of (a, len, now) \<Rightarrow> xdp_report c i k (xr_mem r) a now)"

lemma rx_body_idle:
  "xr_sigs r = [] \<Longrightarrow> xr_descs r = [] \<Longrightarrow> g_rx_seq g < frames_to_send (opts d) \<Longrightarrow>
     afxdp_rx_body d r (0, g) = Running (0, g)"
  by (simp add: afxdp_rx_body_def afxdp_recv_pkt_def)

lemma rx_body_frame:
  assumes "txrx_cfg_ok c" and "wire_frame c i (of_nat k) f" and "carries r f" and "xr_sigs r = []"
    and "k \<le> unat (frames_to_send (opts d))" and "unat (frames_to_send (opts d)) \<le> 10000000"
    and "g_rx_seq g < frames_to_send (opts d)"
  shows "\<exists>g'. g_out g' = g_out g @ (if 0 < k then [report_of c i k r] else []) \<and>
    afxdp_rx_body d r (0, g) = (if k = unat (frames_to_send (opts d)) then Done (0, g') else Running (0, g')) \<and>
    (if k = unat (frames_to_send (opts d)) then g_rx_seq g' = frames_to_send (opts d) else g_rx_seq g' < frames_to_send (opts d))"
proof -
  let ?n = "frames_to_send (opts d)"
  obtain a len now rets where r: "xr_descs r = [(a, len, now)]" "len \<noteq> 0" "mem_read (xr_mem r) (unat a) 42 = f"
    "xr_rets r = 1 # rets"
    using assms(3) by (auto simp: carries_def)
  have k: "unat (of_nat k :: u64) = k" and k32: "unat (of_nat k :: u32) = k"
    using assms(5,6) by (simp_all add: unat_of_nat)
  let ?g = "(if 0 < k then g\<lparr>g_out := g_out g @ [report_of c i k r], g_rx_seq := of_nat k\<rparr> else g)
    \<lparr>g_fill := g_fill g + 1, g_npkts := g_npkts g + 1\<rparr>"
  have u: "(ucast (of_nat k :: u64) :: u32) = of_nat k"
    using assms(5,6) by (simp add: word_unat_eq_iff unsigned_ucast_eq take_bit_eq_mod unat_of_nat)
  have "afxdp_recv_pkt (xr_mem r) (xr_descs r) (xr_rets r) g = Some (Inr ?g)"
    using wire_frame_received [OF assms(1) _ _ r(2), of i "of_nat k" "xr_mem r" a now rets g] assms(2,5,6) r k u
    by (simp add: report_of_def)
  then have "afxdp_rx_body d r (0, g) = (if ?n \<le> g_rx_seq ?g then Done (0, ?g) else Running (0, ?g))"
    using assms(4) by (simp add: afxdp_rx_body_def)
  moreover have "?n \<le> (of_nat k :: u32) \<longleftrightarrow> k = unat ?n"
    using assms(5) by (auto simp: word_le_nat_alt k32)
  moreover have "k = unat ?n \<Longrightarrow> (of_nat k :: u32) = ?n"
    by simp
  moreover have "0 < unat ?n"
    using assms(7) by (simp add: word_less_nat_alt)
  ultimately show ?thesis
    using assms(7) by (intro exI [of _ ?g]) (auto simp: not_le)
qed

lemma rx_run:
  assumes "txrx_cfg_ok c" and "unat (frames_to_send (opts d)) \<le> 10000000"
    and "\<forall>j \<le> unat (frames_to_send (opts d)). wire_frame c (tx j) (of_nat j) (fr j)"
  shows "\<forall>r \<in> set rins. xr_sigs r = [] \<Longrightarrow> arr = filter (\<lambda>r. xr_descs r \<noteq> []) rins \<Longrightarrow>
    k + length arr = unat (frames_to_send (opts d)) + 1 \<Longrightarrow> arr \<noteq> [] \<Longrightarrow> \<forall>j < length arr. carries (arr ! j) (fr (k + j)) \<Longrightarrow>
    g_rx_seq g < frames_to_send (opts d) \<Longrightarrow>
    \<exists>g'. iterate (afxdp_rx_body d) rins (0, g) = Done (0, g') \<and> g_rx_seq g' = frames_to_send (opts d) \<and>
      g_out g' = g_out g @ concat (map (\<lambda>j. if 0 < k + j then [report_of c (tx (k + j)) (k + j) (arr ! j)] else []) [0..<length arr])"
proof (induction rins arbitrary: arr k g)
  case Nil
  then show ?case by simp
next
  case (Cons r rins)
  let ?n = "unat (frames_to_send (opts d))"
  have sig: "xr_sigs r = []" using Cons.prems(1) by simp
  show ?case
  proof (cases "xr_descs r = []")
    case True
    then show ?thesis
      using Cons.IH [of arr k g] Cons.prems rx_body_idle [OF sig True Cons.prems(6)] by simp
  next
    case False
    then obtain arr' where arr: "arr = r # arr'" "arr' = filter (\<lambda>r. xr_descs r \<noteq> []) rins"
      using Cons.prems(2) by simp
    have k: "k \<le> ?n" and f: "wire_frame c (tx k) (of_nat k) (fr k)" and cr: "carries r (fr k)"
      using Cons.prems(3,5) assms(3) arr by auto
    obtain g1 where g1: "g_out g1 = g_out g @ (if 0 < k then [report_of c (tx k) k r] else [])"
      "afxdp_rx_body d r (0, g) = (if k = ?n then Done (0, g1) else Running (0, g1))"
      "if k = ?n then g_rx_seq g1 = frames_to_send (opts d) else g_rx_seq g1 < frames_to_send (opts d)"
      using rx_body_frame [OF assms(1) f cr sig k assms(2) Cons.prems(6)] by blast
    have split: "[0..<length arr] = 0 # map Suc [0..<length arr']"
      using arr by (simp add: upt_conv_Cons map_Suc_upt del: upt_Suc)
    show ?thesis
    proof (cases "k = ?n")
      case True
      then have "arr' = []" using Cons.prems(3) arr by simp
      then show ?thesis using g1 True arr by (intro exI [of _ g1]) simp
    next
      case False
      then have "arr' \<noteq> []" using Cons.prems(3) arr by auto
      moreover have "\<forall>j < length arr'. carries (arr' ! j) (fr (k + 1 + j))"
        using Cons.prems(5) arr(1) by (metis Suc_less_eq add.assoc length_Cons nth_Cons_Suc plus_1_eq_Suc)
      ultimately show ?thesis
        using Cons.IH [of arr' "k + 1" g1] Cons.prems(1,3) arr g1 False
        unfolding split by (auto simp: comp_def)
    qed
  qed
qed

section \<open>Properties\<close>

text \<open>
  A frame from the sender to the receiver. What an iteration submits, seen by the receiver
  in its own packet memory, is accepted when its sequence number is between 1 and fifty million,
  and reported with the queue, the sequence number and the send time of that iteration.
\<close>

theorem afxdp_end_to_end:
  assumes "xdp_inv c s" and "xdp_body c i s = Running s'" and "submits (opts c) i"
    and "0 < unat (x_seq s)" and "unat (x_seq s) < 50000000"
    and "mem_read m2 (unat a2) 42 = mem_read (buffer (pktbuff (x_xsk s'))) (unat (tx_addr (x_xsk s))) 42"
    and "len \<noteq> 0"
  shows "afxdp_recv_pkt m2 [(a2, len, now)] [1] g =
     Some (Inr (g\<lparr>g_out := g_out g @
         [show_nat (unat (get_time_nanosec now - get_time_nanosec (xi_now i))) @ tab @
          show_nat (unat (x_seq s)) @ tab @ show_nat (unat (xo_queue (x_opt (opts c)))) @ tab @
          show_nat (unat (get_time_nanosec (xi_now i))) @ tab @
          show_nat (unat (u64_of_bytes (mem_read m2 (unat a2 - 8) 8))) @ tab @
          show_nat (unat (get_time_nanosec now)) @ ''\<newline>''],
        g_rx_seq := ucast (x_seq s), g_fill := g_fill g + 1, g_npkts := g_npkts g + 1\<rparr>))"
proof -
  have ok: "txrx_cfg_ok c"
    using assms(1) by (simp add: xdp_inv_def)
  have "wire_frame c i (x_seq s) (mem_read m2 (unat a2) 42)"
    using wire_frame_sent [OF assms(1-3)] assms(6) by simp
  from wire_frame_received [OF ok this assms(5,7), of now "[]" g] show ?thesis
    using assms(4) by (simp add: xdp_report_def Let_def)
qed

definition ex_xdp_st :: xdp_st where
  "ex_xdp_st = (xdp_init txrx_defaults (Timespec 10 5) 0 (zeros 64) ex_xsk)\<lparr>x_seq := 5\<rparr>"

lemma ex_xdp_inv: "xdp_inv txrx_defaults ex_xdp_st"
proof -
  have "xdp_inv txrx_defaults (xdp_init txrx_defaults (Timespec 10 5) 0 (zeros 64) ex_xsk)"
    by (rule xdp_init_inv [OF txrx_defaults_ok]) (simp_all add: txrx_defaults_def ex_xsk_def)
  then show ?thesis by (simp add: xdp_inv_def ex_xdp_st_def)
qed

theorem afxdp_end_to_end_witness:
  "\<exists>s' line. xdp_body txrx_defaults (ex_xin 7) ex_xdp_st = Running s' \<and>
     afxdp_recv_pkt (buffer (pktbuff (x_xsk s'))) [(tx_addr (x_xsk ex_xdp_st), 64, Timespec 12 9)] [1]
         \<lparr>g_rx_seq = 4, g_out = [], g_fill = 0, g_npkts = 0\<rparr> =
       Some (Inr \<lparr>g_rx_seq = 5, g_out = [line], g_fill = 1, g_npkts = 1\<rparr>)"
proof -
  have "\<exists>s'. xdp_body txrx_defaults (ex_xin 7) ex_xdp_st = Running s' \<and> x_halt s' = 0"
    by (rule xdp_body_quiet)
      (simp_all add: xdp_quiet_def ex_xin_def ex_xdp_st_def xdp_init_def Let_def txrx_defaults_def)
  then obtain s' where s': "xdp_body txrx_defaults (ex_xin 7) ex_xdp_st = Running s'" by blast
  have "submits (opts txrx_defaults) (ex_xin 7)"
    by (simp add: submits_def ex_xin_def txrx_defaults_def)
  from afxdp_end_to_end [OF ex_xdp_inv s' this _ _ refl, of 64 "Timespec 12 9" "\<lparr>g_rx_seq = 4, g_out = [], g_fill = 0, g_npkts = 0\<rparr>"] s'
  show ?thesis by (simp add: ex_xdp_st_def)
qed

lemma concat_from_1: "concat (map (\<lambda>j. if 0 < j then [f j] else []) [0..<n + 1]) = map f [1..<n + 1]"
  by (induction n) simp_all

lemma xdp_prefix:
  assumes "unat (frames_to_send (opts c)) \<le> 10000000" and "x_halt s = 0" and "x_i s = 0"
    and "\<forall>i \<in> set is. xdp_quiet i" and "k \<le> unat (frames_to_send (opts c)) + 10"
    and "unat (frames_to_send (opts c)) + 10 \<le> length is"
  shows "\<exists>t. iterate (xdp_body c) (take k is) s = Running t"
proof -
  let ?n = "unat (frames_to_send (opts c)) + 10"
  have "\<exists>t. iterate (xdp_body c) (take ?n is) s = Running t"
    using xdp_remaining [OF assms(1,2), of "take ?n is"] assms(3,4,6) by (auto dest: in_set_takeD)
  moreover have "take ?n is = take k is @ drop k (take ?n is)"
    using append_take_drop_id [of k "take ?n is"] assms(5) by (simp add: min_def)
  ultimately have "\<exists>t. iterate (xdp_body c) (take k is @ drop k (take ?n is)) s = Running t"
    by simp
  then show ?thesis
    by (auto simp only: iterate_append split: run.splits)
qed

text \<open>Configurations and runs for concrete inputs.\<close>

definition ex_run_cfg :: "u32 \<Rightarrow> txrx_cfg" where
  "ex_run_cfg n = txrx_defaults\<lparr>opts := (opts txrx_defaults)\<lparr>frames_to_send := n\<rparr>\<rparr>"

lemma ex_run_cfg_ok: "1 \<le> unat n \<Longrightarrow> unat n \<le> 10000000 \<Longrightarrow> txrx_cfg_ok (ex_run_cfg n)"
  using txrx_defaults_ok by (simp add: ex_run_cfg_def txrx_cfg_ok_def txrx_opt_ok_def)

definition ex_run_st :: "u32 \<Rightarrow> xdp_st" where
  "ex_run_st n = xdp_init (ex_run_cfg n) (Timespec 10 5) 0 (zeros 64) ex_xsk"

lemma ex_run_inv: "1 \<le> unat n \<Longrightarrow> unat n \<le> 10000000 \<Longrightarrow> xdp_inv (ex_run_cfg n) (ex_run_st n)"
  unfolding ex_run_st_def
  by (rule xdp_init_inv [OF ex_run_cfg_ok]) (simp_all add: ex_run_cfg_def txrx_defaults_def ex_xsk_def)

lemma ex_run_prefix:
  assumes "k \<le> unat n + 10" and "unat n \<le> 10000000"
  shows "\<exists>s. iterate (xdp_body (ex_run_cfg n)) (replicate k (ex_xin 7)) (ex_run_st n) = Running s"
  using xdp_prefix [of "ex_run_cfg n" "ex_run_st n" "replicate (unat n + 10) (ex_xin 7)" k] assms
  by (simp add: ex_run_cfg_def ex_run_st_def xdp_init_def Let_def xdp_quiet_def ex_xin_def min_def)

lemma ex_xin_submits: "submits (opts (ex_run_cfg n)) (ex_xin ns)"
  by (simp add: submits_def ex_xin_def ex_run_cfg_def txrx_defaults_def)

text \<open>
  C11: the schedule of a run. As long as every packet is submitted, the sender wakes at the base
  time plus a multiple of the interval, less the early offset, and hands the kernel one descriptor
  for each wake: the frames of the packet memory in turn, the packet size, and as launch time the
  base time plus the same multiple of the interval, or 0 when the launch time is not enabled.
\<close>

theorem afxdp_schedule:
  assumes "txrx_cfg_ok c" and "length junk = unat (packet_size (opts c))" and "cur_tx x = 0" and "tx_descs x = []"
    and "\<forall>i \<in> set ins. submits (opts c) i" and "afxdp_send_thread c now halt junk lp x ins = Running s"
  shows "x_wakes s = map (\<lambda>k. ts_of_u64 (get_time_sec now + ucast (offset_ns (opts c)) + 2 * 1000000000 +
             of_nat k * ucast (interval_ns (opts c)) - ucast (early_offset_ns (opts c)))) [0..<length ins] \<and>
         tx_descs (x_xsk s) = map (\<lambda>k. (of_nat (k mod 4096 * 4096), packet_size (opts c),
             if enable_txtime (opts c) = 0 then 0
             else get_time_sec now + ucast (offset_ns (opts c)) + 2 * 1000000000 +
                  of_nat k * ucast (interval_ns (opts c)))) [0..<length ins]"
proof -
  let ?s0 = "xdp_init c now halt junk x"
  have run: "iterate (xdp_body c) ins ?s0 = Running s"
    using assms(6) by (simp add: afxdp_send_thread_def split: run.splits)
  have "x_wakes ?s0 = []" "tx_descs (x_xsk ?s0) = []" "cur_tx (x_xsk ?s0) = 0"
    "x_ts ?s0 = get_time_sec now + ucast (offset_ns (opts c)) + 2 * 1000000000"
    using assms(3,4) by (simp_all add: xdp_init_def Let_def)
  with submitted_descs [OF xdp_init_inv [OF assms(1-4)] assms(5) run] xdp_cycle.trace_all [OF TrueI run]
  show ?thesis by (simp add: desc_at_def)
qed

theorem afxdp_schedule_witness:
  "\<exists>s. afxdp_send_thread txrx_defaults (Timespec 10 5) 0 (zeros 64) 0 ex_xsk [ex_xin 7, ex_xin 8] = Running s \<and>
     x_wakes s = [Timespec 11 999900000, Timespec 12 0] \<and>
     tx_descs (x_xsk s) = [(0, 64, 0), (4096, 64, 0)]"
proof -
  obtain s where s: "afxdp_send_thread txrx_defaults (Timespec 10 5) 0 (zeros 64) 0 ex_xsk [ex_xin 7, ex_xin 8] = Running s"
    using ex_xdp_run by blast
  have "x_wakes s = [Timespec 11 999900000, Timespec 12 0] \<and> tx_descs (x_xsk s) = [(0, 64, 0), (4096, 64, 0)]"
    using afxdp_schedule [OF txrx_defaults_ok _ _ _ _ s]
    by (simp add: txrx_defaults_def ex_xsk_def ex_xin_def submits_def ts_of_u64_def get_time_sec_def NSEC_PER_SEC_def)
  with s show ?thesis by blast
qed

lemma frame_stays:
  assumes "xdp_inv c s" and "xdp_body c i s = Running s1" and "submits (opts c) i"
    and "iterate (xdp_body c) is s1 = Running s2" and "length is \<le> 4095"
  shows "mem_read (buffer (pktbuff (x_xsk s2))) (unat (tx_addr (x_xsk s))) 4096 =
           mem_read (buffer (pktbuff (x_xsk s1))) (unat (tx_addr (x_xsk s))) 4096"
    and "wire_frame c i (x_seq s) (mem_read (buffer (pktbuff (x_xsk s2))) (unat (tx_addr (x_xsk s))) 42)"
proof -
  have cur: "unat (cur_tx (x_xsk s)) < 4096"
    using assms(1) by (simp add: xdp_inv_def xsk_ok_def)
  show same: "mem_read (buffer (pktbuff (x_xsk s2))) (unat (tx_addr (x_xsk s))) 4096 =
      mem_read (buffer (pktbuff (x_xsk s1))) (unat (tx_addr (x_xsk s))) 4096"
    using frame_kept [OF xdp_inv_step [OF assms(1,2)] assms(4) cur, of 0] submit_next [OF assms(1-3)] assms(5)
    by (simp add: unat_tx_addr [OF cur])
  have "mem_read m (unat (tx_addr (x_xsk s))) 42 = take 42 (mem_read m (unat (tx_addr (x_xsk s))) 4096)" for m
    by (simp add: mem_read_take)
  with same have "mem_read (buffer (pktbuff (x_xsk s2))) (unat (tx_addr (x_xsk s))) 42 =
      mem_read (buffer (pktbuff (x_xsk s1))) (unat (tx_addr (x_xsk s))) 42"
    by simp
  with wire_frame_sent [OF assms(1-3)]
  show "wire_frame c i (x_seq s) (mem_read (buffer (pktbuff (x_xsk s2))) (unat (tx_addr (x_xsk s))) 42)" by simp
qed



text \<open>
  C31: a full transmit ring corrupts the oldest packet. After 4096 packets that the kernel has
  not sent yet, an iteration finds no room in the ring and submits nothing; but by then it has
  already written its own sequence number and send time over the frame of the oldest of these
  packets, whose descriptor, with that packet's launch time, stays in the ring.
\<close>

theorem afxdp_full_ring_overwrites:
  assumes "xdp_inv c s" and "\<forall>i \<in> set (i # is). submits (opts c) i" and "length is = 4095"
    and "iterate (xdp_body c) (i # is) s = Running s1"
    and "xdp_body c j s1 = Running s2" and "xi_reserve j \<noteq> 1"
    and "enable_poll (opts c) = 0 \<or> 0 < xi_poll j \<and> xi_pollout j"
  shows "tx_descs (x_xsk s2) = tx_descs (x_xsk s1) \<and>
         tx_descs (x_xsk s1) ! length (tx_descs (x_xsk s)) =
           (tx_addr (x_xsk s), packet_size (opts c), if enable_txtime (opts c) = 0 then 0 else x_ts s) \<and>
         wire_frame c i (x_seq s) (mem_read (buffer (pktbuff (x_xsk s1))) (unat (tx_addr (x_xsk s))) 42) \<and>
         wire_frame c j (x_seq s + 4096) (mem_read (buffer (pktbuff (x_xsk s2))) (unat (tx_addr (x_xsk s))) 42)"
proof -
  obtain t where t: "xdp_body c i s = Running t" and it: "iterate (xdp_body c) is t = Running s1"
    using assms(4) by (auto split: run.splits)
  have cur: "unat (cur_tx (x_xsk s)) < 4096"
    using assms(1) by (simp add: xdp_inv_def xsk_ok_def)
  have inv: "xdp_inv c s1"
    using xdp_sending.inv_running [OF assms(1,4)] .
  note descs = submitted_descs [OF assms(1,2,4)]
  then have addr: "tx_addr (x_xsk s1) = tx_addr (x_xsk s)"
    using assms(3) cur by (simp add: tx_addr_of_nat)
  have seq: "x_seq s1 = x_seq s + 4096"
    using xdp_seq.drift_free [OF TrueI assms(4)] assms(3) by simp
  have "tx_descs (x_xsk s1) ! length (tx_descs (x_xsk s)) = desc_at c s 0"
    using descs by (simp add: nth_append del: upt_Suc)
  then have oldest: "tx_descs (x_xsk s1) ! length (tx_descs (x_xsk s)) =
      (tx_addr (x_xsk s), packet_size (opts c), if enable_txtime (opts c) = 0 then 0 else x_ts s)"
    using cur by (simp add: desc_at_def tx_addr_of_nat)
  have "tx_descs (x_xsk s2) = tx_descs (x_xsk s1)"
    using assms(5,6) by (auto simp: xdp_body_def afxdp_send_pkt_def Let_def split: if_splits)
  moreover have "wire_frame c i (x_seq s) (mem_read (buffer (pktbuff (x_xsk s1))) (unat (tx_addr (x_xsk s))) 42)"
    using frame_stays [OF assms(1) t _ it] assms(2,3) by simp
  moreover have "wire_frame c j (x_seq s + 4096) (mem_read (buffer (pktbuff (x_xsk s2))) (unat (tx_addr (x_xsk s))) 42)"
    using wire_frame_written [OF inv assms(5,7)] addr seq by simp
  ultimately show ?thesis
    using oldest by blast
qed

theorem afxdp_full_ring_overwrites_witness:
  "\<exists>s1 s2. iterate (xdp_body (ex_run_cfg 5000)) (replicate 4096 (ex_xin 7)) (ex_run_st 5000) = Running s1 \<and>
     xdp_body (ex_run_cfg 5000) ((ex_xin 9)\<lparr>xi_reserve := 0\<rparr>) s1 = Running s2 \<and>
     tx_descs (x_xsk s2) ! 0 = (0, 64, 0) \<and>
     wire_frame (ex_run_cfg 5000) ((ex_xin 9)\<lparr>xi_reserve := 0\<rparr>) 4096 (mem_read (buffer (pktbuff (x_xsk s2))) 0 42)"
proof -
  let ?c = "ex_run_cfg 5000" and ?s = "ex_run_st 5000" and ?j = "(ex_xin 9)\<lparr>xi_reserve := 0\<rparr>"
  obtain s1 where "iterate (xdp_body ?c) (replicate (1 + 4095) (ex_xin 7)) ?s = Running s1"
    using ex_run_prefix [of "1 + 4095" 5000] by auto
  then have run: "iterate (xdp_body ?c) (ex_xin 7 # replicate 4095 (ex_xin 7)) ?s = Running s1"
    by (simp only: replicate_add) simp
  then have run': "iterate (xdp_body ?c) (replicate 4096 (ex_xin 7)) ?s = Running s1"
    by (simp only: replicate_Suc [symmetric]) simp
  have "\<exists>s3. iterate (xdp_body ?c) (replicate 4096 (ex_xin 7) @ [ex_xin 7]) ?s = Running s3"
    using ex_run_prefix [of "4096 + 1" 5000] by (simp only: replicate_add) simp
  then obtain s3 where "xdp_body ?c (ex_xin 7) s1 = Running s3"
    using run' by (auto simp: iterate_append split: run.splits)
  then have "x_halt s1 = 0 \<and> x_i s1 < ucast (frames_to_send (opts ?c) + 10)"
    by (auto simp: xdp_body_def Let_def ex_xin_def split: if_splits)
  then obtain s2 where s2: "xdp_body ?c ?j s1 = Running s2"
    using xdp_body_quiet [of ?j s1 ?c] by (auto simp: xdp_quiet_def ex_xin_def)
  have st: "x_seq ?s = 0" "tx_addr (x_xsk ?s) = 0" "tx_descs (x_xsk ?s) = []" "packet_size (opts ?c) = 64"
    "enable_txtime (opts ?c) = 0" "enable_poll (opts ?c) = 0"
    by (simp_all add: ex_run_st_def ex_run_cfg_def txrx_defaults_def xdp_init_def Let_def tx_addr_def ex_xsk_def)
  have "\<forall>i \<in> set (ex_xin 7 # replicate 4095 (ex_xin 7)). submits (opts ?c) i"
    using ex_xin_submits by (auto simp: set_replicate_conv_if)
  from afxdp_full_ring_overwrites [OF ex_run_inv this _ run s2] have
    "tx_descs (x_xsk s2) ! 0 = (0, 64, 0) \<and> wire_frame ?c ?j 4096 (mem_read (buffer (pktbuff (x_xsk s2))) 0 42)"
    using st by simp
  with run' s2 show ?thesis by blast
qed

text \<open>
  C6: a whole measurement over AF_XDP. An undisturbed sender for which every packet is submitted
  ends after the number of packets asked for and ten more; a receiver set to the same number that
  gets the packets up to that number, in order and with any pauses, ends as well, and has then
  printed one line for each sequence number from 1 up, with the queue, the sequence number and the
  send time of the iteration that sent it. The packet with number 0 is sent and not reported.
\<close>

theorem afxdp_measurement:
  assumes "txrx_cfg_ok c" and "length junk = unat (packet_size (opts c))" and "cur_tx x = 0" and "tx_descs x = []"
    and "n = unat (frames_to_send (opts c))" and "n + 10 < length ins"
    and "\<forall>i \<in> set ins. xi_sigs i = [] \<and> submits (opts c) i"
    and "frames_to_send (opts d) = frames_to_send (opts c)"
    and "fs = xdp_frames c (take (n + 1) ins) (xdp_init c now 0 junk x)"
    and "\<forall>r \<in> set rins. xr_sigs r = []" and "arr = filter (\<lambda>r. xr_descs r \<noteq> []) rins"
    and "length arr = n + 1" and "\<forall>k \<le> n. carries (arr ! k) (fs ! k)"
  shows "(\<exists>s. afxdp_send_thread c now 0 junk lp x ins = Done s \<and> unat (x_seq s) = n + 10) \<and>
         (\<exists>g. iterate (afxdp_rx_body d) rins (0, \<lparr>g_rx_seq = 0, g_out = [], g_fill = 0, g_npkts = 0\<rparr>) = Done (0, g) \<and>
              unat (g_rx_seq g) = n \<and>
              g_out g = map (\<lambda>k. report_of c (ins ! k) k (arr ! k)) [1..<n + 1])"
proof
  let ?s0 = "xdp_init c now 0 junk x"
  have n: "1 \<le> n" "n \<le> 10000000"
    using assms(1,5) by (simp_all add: txrx_cfg_ok_def txrx_opt_ok_def)
  have quiet: "\<forall>i \<in> set ins. xdp_quiet i"
    using assms(7) by (auto simp: xdp_quiet_def submits_def)
  then show "\<exists>s. afxdp_send_thread c now 0 junk lp x ins = Done s \<and> unat (x_seq s) = n + 10"
    using afxdp_sends_all [OF assms(1) quiet] assms(5,6) by simp
  have "\<exists>t. iterate (xdp_body c) (take (n + 1) ins) ?s0 = Running t"
    by (rule xdp_prefix) (use n quiet assms(5,6) in \<open>auto simp: xdp_init_def Let_def\<close>)
  then obtain t where run: "iterate (xdp_body c) (take (n + 1) ins) ?s0 = Running t" ..
  have "\<forall>i \<in> set (take (n + 1) ins). submits (opts c) i"
    using assms(7) by (auto dest: in_set_takeD)
  from xdp_frames_wire [OF xdp_init_inv [OF assms(1-4)] this run] assms(6,9)
  have "\<forall>k \<le> n. wire_frame c (ins ! k) (of_nat k) (fs ! k)"
    by (simp add: xdp_init_def Let_def)
  then have sent: "\<forall>k \<le> unat (frames_to_send (opts d)). wire_frame c (ins ! k) (of_nat k) (fs ! k)"
    using assms(5,8) by simp
  let ?g0 = "\<lparr>g_rx_seq = 0, g_out = [], g_fill = 0, g_npkts = 0\<rparr>"
  have pos: "g_rx_seq ?g0 < frames_to_send (opts d)"
    using n assms(5,8) by (simp add: word_less_nat_alt)
  have "\<exists>g. iterate (afxdp_rx_body d) rins (0, ?g0) = Done (0, g) \<and> g_rx_seq g = frames_to_send (opts d) \<and>
      g_out g = g_out ?g0 @ concat (map (\<lambda>j. if 0 < 0 + j then [report_of c (ins ! (0 + j)) (0 + j) (arr ! j)] else []) [0..<length arr])"
    by (rule rx_run [OF assms(1) _ sent assms(10,11)]) (use n pos assms(5,8,12,13) in auto)
  moreover have "concat (map (\<lambda>j. if 0 < 0 + j then [report_of c (ins ! (0 + j)) (0 + j) (arr ! j)] else []) [0..<n + 1]) =
      map (\<lambda>k. report_of c (ins ! k) k (arr ! k)) [1..<n + 1]"
    by (simp only: concat_from_1 add_0)
  ultimately show "\<exists>g. iterate (afxdp_rx_body d) rins (0, ?g0) = Done (0, g) \<and> unat (g_rx_seq g) = n \<and>
      g_out g = map (\<lambda>k. report_of c (ins ! k) k (arr ! k)) [1..<n + 1]"
    using assms(5,8,12) by auto
qed

definition ex_rx_frame :: "bytes \<Rightarrow> xrx_in" where
  "ex_rx_frame f = \<lparr>xr_sigs = [], xr_mem = mem_write 256 f (\<lambda>_. 0), xr_descs = [(256, 64, Timespec 12 9)], xr_rets = [1]\<rparr>"

definition ex_rx_idle :: xrx_in where
  "ex_rx_idle = \<lparr>xr_sigs = [], xr_mem = (\<lambda>_. 0), xr_descs = [], xr_rets = []\<rparr>"

lemma ex_rx_carries: "length f = 42 \<Longrightarrow> carries (ex_rx_frame f) f"
  by (simp add: carries_def ex_rx_frame_def mem_read_same)

theorem afxdp_measurement_witness:
  "\<exists>f0 f1 f2 s g. xdp_frames (ex_run_cfg 2) (replicate 3 (ex_xin 7)) (ex_run_st 2) = [f0, f1, f2] \<and>
     afxdp_send_thread (ex_run_cfg 2) (Timespec 10 5) 0 (zeros 64) 0 ex_xsk (replicate 13 (ex_xin 7)) = Done s \<and>
     unat (x_seq s) = 12 \<and>
     iterate (afxdp_rx_body (ex_run_cfg 2)) [ex_rx_frame f0, ex_rx_idle, ex_rx_frame f1, ex_rx_frame f2, ex_rx_idle]
       (0, \<lparr>g_rx_seq = 0, g_out = [], g_fill = 0, g_npkts = 0\<rparr>) = Done (0, g) \<and>
     g_out g = [report_of (ex_run_cfg 2) (ex_xin 7) 1 (ex_rx_frame f1), report_of (ex_run_cfg 2) (ex_xin 7) 2 (ex_rx_frame f2)]"
proof -
  let ?c = "ex_run_cfg 2" and ?fs = "xdp_frames (ex_run_cfg 2) (replicate 3 (ex_xin 7)) (ex_run_st 2)"
  have c: "frames_to_send (opts ?c) = 2" "packet_size (opts ?c) = 64"
    by (simp_all add: ex_run_cfg_def txrx_defaults_def)
  obtain t where "iterate (xdp_body ?c) (replicate 3 (ex_xin 7)) (ex_run_st 2) = Running t"
    using ex_run_prefix [of 3 2] by auto
  from xdp_frames_wire [OF ex_run_inv _ this] have fs: "length ?fs = 3" "\<forall>k < 3. length (?fs ! k) = 42"
    using ex_xin_submits by (simp_all add: wire_frame_def set_replicate_conv_if)
  then obtain f0 f1 f2 where f: "?fs = [f0, f1, f2]"
    by (auto simp: length_Suc_conv numeral_3_eq_3)
  then have len: "length f0 = 42" "length f1 = 42" "length f2 = 42"
    using fs(2) by (auto simp: numeral_3_eq_3 less_Suc_eq)
  let ?rins = "[ex_rx_frame f0, ex_rx_idle, ex_rx_frame f1, ex_rx_frame f2, ex_rx_idle]"
  have carry: "\<forall>k \<le> 2. carries ([ex_rx_frame f0, ex_rx_frame f1, ex_rx_frame f2] ! k) (?fs ! k)"
    unfolding f using ex_rx_carries len by (auto simp: le_Suc_eq numeral_2_eq_2)
  have frames: "?fs = xdp_frames ?c (take (2 + 1) (replicate 13 (ex_xin 7))) (xdp_init ?c (Timespec 10 5) 0 (zeros 64) ex_xsk)"
    by (simp add: ex_run_st_def)
  have "(\<exists>s. afxdp_send_thread ?c (Timespec 10 5) 0 (zeros 64) 0 ex_xsk (replicate 13 (ex_xin 7)) = Done s \<and>
           unat (x_seq s) = 2 + 10) \<and>
        (\<exists>g. iterate (afxdp_rx_body ?c) ?rins (0, \<lparr>g_rx_seq = 0, g_out = [], g_fill = 0, g_npkts = 0\<rparr>) = Done (0, g) \<and>
           unat (g_rx_seq g) = 2 \<and>
           g_out g = map (\<lambda>k. report_of ?c (replicate 13 (ex_xin 7) ! k) k
             ([ex_rx_frame f0, ex_rx_frame f1, ex_rx_frame f2] ! k)) [1..<2 + 1])"
    by (rule afxdp_measurement [OF ex_run_cfg_ok _ _ _ _ _ _ refl frames _ _ _ carry])
      (use ex_xin_submits in \<open>simp_all add: c ex_xsk_def ex_rx_frame_def ex_rx_idle_def ex_xin_def\<close>)
  moreover have "[1..<2 + 1] = [1, 2::nat]"
    by (simp add: upt_rec)
  ultimately show ?thesis
    using f by (auto simp del: iterate.simps)
qed

end
