(* ===== verification/Opcua_Config.thy ===== *)
theory Opcua_Config
  imports CLib
begin

text \<open>
  The configuration of the OPC UA server: the getters of \<^verbatim>\<open>src/opcua-tsn/json_helper.c\<close>, the
  structures of \<^verbatim>\<open>opcua_common.h\<close>, and \<^verbatim>\<open>parseJson()\<close>, \<^verbatim>\<open>parseArgs()\<close>, \<^verbatim>\<open>free_resources()\<close> and
  \<^verbatim>\<open>setRtPriority()\<close> of \<^verbatim>\<open>opcua_common.c\<close>.

  The JSON objects and the functions of the json-c library on them are a parameter: \<open>'j\<close> is the
  type of objects and \<open>'j jsonc\<close> the operations. \<^verbatim>\<open>parseJson\<close> is a long sequence of "read a field,
  store it, check it"; a field is a \<open>field\<close> value and \<open>parse_fields\<close> runs a list of them, keeping
  the structure as far as it was filled when a check fails. An exit of the program and a jump to
  the \<^verbatim>\<open>error\<close> label are the two kinds of \<open>jerr\<close>.
\<close>

section \<open>json-c and the getters\<close>

datatype jtype = J_string | J_int | J_boolean | J_object | J_other

record 'j jsonc =
  j_get :: "'j \<Rightarrow> string \<Rightarrow> 'j option"
  j_type :: "'j \<Rightarrow> jtype"
  j_str :: "'j \<Rightarrow> string"
  j_int :: "'j \<Rightarrow> int"
  j_int64 :: "'j \<Rightarrow> int"
  j_bool :: "'j \<Rightarrow> bool"
  j_length :: "'j \<Rightarrow> nat"
  j_values :: "'j \<Rightarrow> 'j list"
  j_print :: "'j \<Rightarrow> string"

datatype jerr = J_exit string | J_error string

definition quoted :: "string \<Rightarrow> string" where
  "quoted s = CHR 0x27 # s @ [CHR 0x27]"

definition ensureType :: "'j jsonc \<Rightarrow> 'j \<Rightarrow> jtype \<Rightarrow> 'j \<Rightarrow> string \<Rightarrow> jerr + unit" where
  "ensureType js toCheck ty parent key =
     (if j_type js toCheck \<noteq> ty
      then Inl (J_exit (''Key '' @ quoted key @ '' in object '' @ quoted (j_print js parent) @ '' has invalid type. Exiting.''))
      else Inr ())"

definition not_found :: "'j jsonc \<Rightarrow> 'j \<Rightarrow> string \<Rightarrow> jerr" where
  "not_found js parent key =
     J_exit (''Key '' @ quoted key @ '' not found in object '' @ quoted (j_print js parent) @ ''. Exiting.'')"

text \<open>The shape all getters share: look the key up, check the type, convert.\<close>

definition getTyped :: "'j jsonc \<Rightarrow> jtype \<Rightarrow> ('j \<Rightarrow> 'a) \<Rightarrow> 'a option \<Rightarrow> 'j \<Rightarrow> string \<Rightarrow> jerr + 'a" where
  "getTyped js ty conv dflt parent key =
     (case j_get js parent key of
        Some v \<Rightarrow> (case ensureType js v ty parent key of Inl e \<Rightarrow> Inl e | Inr _ \<Rightarrow> Inr (conv v))
      | None \<Rightarrow> (case dflt of Some d \<Rightarrow> Inr d | None \<Rightarrow> Inl (not_found js parent key)))"

definition getOptionalStr :: "'j jsonc \<Rightarrow> 'j \<Rightarrow> string \<Rightarrow> string \<Rightarrow> jerr + string" where
  "getOptionalStr js parent key d = getTyped js J_string (j_str js) (Some d) parent key"

definition getOptionalInt :: "'j jsonc \<Rightarrow> 'j \<Rightarrow> string \<Rightarrow> int \<Rightarrow> jerr + int" where
  "getOptionalInt js parent key d = getTyped js J_int (j_int js) (Some d) parent key"

definition getOptionalBool :: "'j jsonc \<Rightarrow> 'j \<Rightarrow> string \<Rightarrow> bool \<Rightarrow> jerr + bool" where
  "getOptionalBool js parent key d = getTyped js J_boolean (j_bool js) (Some d) parent key"

definition getOptionalInt64 :: "'j jsonc \<Rightarrow> 'j \<Rightarrow> string \<Rightarrow> int \<Rightarrow> jerr + int" where
  "getOptionalInt64 js parent key d = getTyped js J_int (j_int64 js) (Some d) parent key"

definition getString :: "'j jsonc \<Rightarrow> 'j \<Rightarrow> string \<Rightarrow> jerr + string" where
  "getString js parent key = getTyped js J_string (j_str js) None parent key"

definition getInt :: "'j jsonc \<Rightarrow> 'j \<Rightarrow> string \<Rightarrow> jerr + int" where
  "getInt js parent key = getTyped js J_int (j_int js) None parent key"

definition getBool :: "'j jsonc \<Rightarrow> 'j \<Rightarrow> string \<Rightarrow> jerr + bool" where
  "getBool js parent key = getTyped js J_boolean (j_bool js) None parent key"

definition getInt64 :: "'j jsonc \<Rightarrow> 'j \<Rightarrow> string \<Rightarrow> jerr + int" where
  "getInt64 js parent key = getTyped js J_int (j_int64 js) None parent key"

definition countChildrenEntries :: "'j jsonc \<Rightarrow> 'j \<Rightarrow> nat" where
  "countChildrenEntries js j = j_length js j"

definition getValue :: "'j jsonc \<Rightarrow> 'j \<Rightarrow> string \<Rightarrow> jerr + 'j" where
  "getValue js parent key =
     (case j_get js parent key of Some v \<Rightarrow> Inr v | None \<Rightarrow> Inl (not_found js parent key))"

section \<open>The structures\<close>

datatype ds_func =
    No_func | Pub_get | Sub_store | PubReturn_get | SubReturn_store | Dummy_read | Dummy_write

record publisher_data =
  pd_socketPriority :: int
  pd_xdpQueue :: int
  pd_earlyOffsetNs :: int
  pd_publishOffsetNs :: int
  pd_publishDelaySec :: int
  pd_url :: "string option"
  pd_id :: int
  pd_dataSetWriterId :: int
  pd_writerGroupId :: int
  pd_twoWayData :: bool
  pd_cpuAffinity :: int
  pd_readFunc :: ds_func
  pd_writeFunc :: ds_func

record subscriber_data =
  sd_xdpQueue :: int
  sd_offsetNs :: int
  sd_url :: "string option"
  sd_id :: int
  sd_subscribedPubId :: int
  sd_subscribedDSWriterId :: int
  sd_subscribedWGId :: int
  sd_fp :: "string option"
  sd_fileName :: "string option"
  sd_twoWayData :: bool
  sd_cpuAffinity :: int
  sd_readFunc :: ds_func
  sd_writeFunc :: ds_func

text \<open>\<open>sd_fp\<close> is the name of the file that is open for output. \<^verbatim>\<open>calloc\<close> leaves all fields zero.\<close>

record server_data =
  s_pubInterface :: "string option"
  s_subInterface :: "string option"
  s_cycleTimeNs :: int
  s_pollingDurationNs :: int
  s_useXDP :: bool
  s_useXDP_ZC :: bool
  s_useXDP_SKB :: bool
  s_pubData :: "publisher_data list option"
  s_subData :: "subscriber_data list option"
  s_startTime :: u64
  s_packetCount :: u64
  s_msqid :: int

definition zero_pub :: publisher_data where
  "zero_pub = \<lparr>pd_socketPriority = 0, pd_xdpQueue = 0, pd_earlyOffsetNs = 0, pd_publishOffsetNs = 0,
     pd_publishDelaySec = 0, pd_url = None, pd_id = 0, pd_dataSetWriterId = 0, pd_writerGroupId = 0,
     pd_twoWayData = False, pd_cpuAffinity = 0, pd_readFunc = No_func, pd_writeFunc = No_func\<rparr>"

definition zero_sub :: subscriber_data where
  "zero_sub = \<lparr>sd_xdpQueue = 0, sd_offsetNs = 0, sd_url = None, sd_id = 0, sd_subscribedPubId = 0,
     sd_subscribedDSWriterId = 0, sd_subscribedWGId = 0, sd_fp = None, sd_fileName = None,
     sd_twoWayData = False, sd_cpuAffinity = 0, sd_readFunc = No_func, sd_writeFunc = No_func\<rparr>"

definition zero_server :: server_data where
  "zero_server = \<lparr>s_pubInterface = None, s_subInterface = None, s_cycleTimeNs = 0, s_pollingDurationNs = 0,
     s_useXDP = False, s_useXDP_ZC = False, s_useXDP_SKB = False, s_pubData = None, s_subData = None,
     s_startTime = 0, s_packetCount = 0, s_msqid = 0\<rparr>"

section \<open>Fields\<close>

datatype 'r field =
    F_int string "int \<Rightarrow> bool" string "int \<Rightarrow> 'r \<Rightarrow> 'r"
  | F_int64 string "int \<Rightarrow> bool" string "int \<Rightarrow> 'r \<Rightarrow> 'r"
  | F_str string "string \<Rightarrow> 'r \<Rightarrow> 'r"
  | F_bool string "bool \<Rightarrow> 'r \<Rightarrow> 'r"
  | F_const "'r \<Rightarrow> 'r"

text \<open>One field: the structure after the assignment, and the error if there is one.\<close>

definition parse_field :: "'j jsonc \<Rightarrow> 'j \<Rightarrow> 'r field \<Rightarrow> 'r \<Rightarrow> 'r \<times> jerr option" where
  "parse_field js j f r =
     (case f of
        F_int key ok msg asg \<Rightarrow>
          (case getInt js j key of
             Inl e \<Rightarrow> (r, Some e)
           | Inr v \<Rightarrow> (asg v r, if ok v then None else Some (J_error msg)))
      | F_int64 key ok msg asg \<Rightarrow>
          (case getInt64 js j key of
             Inl e \<Rightarrow> (r, Some e)
           | Inr v \<Rightarrow> (asg v r, if ok v then None else Some (J_error msg)))
      | F_str key asg \<Rightarrow>
          (case getString js j key of Inl e \<Rightarrow> (r, Some e) | Inr v \<Rightarrow> (asg v r, None))
      | F_bool key asg \<Rightarrow>
          (case getBool js j key of Inl e \<Rightarrow> (r, Some e) | Inr v \<Rightarrow> (asg v r, None))
      | F_const asg \<Rightarrow> (asg r, None))"

fun parse_fields :: "'j jsonc \<Rightarrow> 'j \<Rightarrow> 'r field list \<Rightarrow> 'r \<Rightarrow> 'r \<times> jerr option" where
  "parse_fields js j [] r = (r, None)"
| "parse_fields js j (f # fs) r =
     (case parse_field js j f r of
        (r', Some e) \<Rightarrow> (r', Some e)
      | (r', None) \<Rightarrow> parse_fields js j fs r')"

definition between :: "int \<Rightarrow> int \<Rightarrow> int \<Rightarrow> bool" where
  "between lo hi v \<longleftrightarrow> \<not> (v < lo \<or> v > hi)"

section \<open>parseJson\<close>

definition server_fields1 :: "server_data field list" where
  "server_fields1 =
     [F_str ''publisher_interface'' (\<lambda>v s. s\<lparr>s_pubInterface := Some v\<rparr>),
      F_str ''subscriber_interface'' (\<lambda>v s. s\<lparr>s_subInterface := Some v\<rparr>),
      F_bool ''use_xdp'' (\<lambda>v s. s\<lparr>s_useXDP := v\<rparr>)]"

definition server_fields_xdp :: "server_data field list" where
  "server_fields_xdp =
     [F_bool ''use_xdp_zc'' (\<lambda>v s. s\<lparr>s_useXDP_ZC := v\<rparr>),
      F_bool ''use_xdp_skb'' (\<lambda>v s. s\<lparr>s_useXDP_SKB := v\<rparr>)]"

text \<open>\<^verbatim>\<open>packetCount\<close> is unsigned: a negative number is a very large one and is refused as such.\<close>

definition server_fields2 :: "server_data field list" where
  "server_fields2 =
     [F_int ''polling_duration_ns'' (between 0 10000000) ''Invalid polling_duration_ns''
        (\<lambda>v s. s\<lparr>s_pollingDurationNs := v\<rparr>),
      F_int64 ''packet_count'' (\<lambda>v. between 1 10000000 (uint (word_of_int v :: u64))) ''Invalid packet_count''
        (\<lambda>v s. s\<lparr>s_packetCount := word_of_int v\<rparr>),
      F_int64 ''cycle_time_ns'' (between 100000 5000000) ''Invalid cycle_time_ns''
        (\<lambda>v s. s\<lparr>s_cycleTimeNs := v\<rparr>)]"

text \<open>
  The core goes through a local variable and is stored after its check; a structure whose check
  failed is only released, so that the order of the two cannot be seen.
\<close>

definition pub_fields :: "bool \<Rightarrow> publisher_data field list" where
  "pub_fields useXDP =
     [F_int ''early_offset_ns'' (between 0 1000000) ''Invalid early_offset_ns'' (\<lambda>v p. p\<lparr>pd_earlyOffsetNs := v\<rparr>),
      F_int ''publish_offset_ns'' (between 0 10000000) ''Invalid publish_offset_ns''
        (\<lambda>v p. p\<lparr>pd_publishOffsetNs := v\<rparr>),
      F_int ''publish_delay_sec'' (\<lambda>v. \<not> v < 0) ''Invalid publish_delay_sec'' (\<lambda>v p. p\<lparr>pd_publishDelaySec := v\<rparr>),
      F_int ''socket_prio'' (between 0 7) ''Invalid socket_prio'' (\<lambda>v p. p\<lparr>pd_socketPriority := v\<rparr>)] @
     (if useXDP then [F_int ''xdp_queue'' (between 0 3) ''Invalid xdp_queue'' (\<lambda>v p. p\<lparr>pd_xdpQueue := v\<rparr>)]
      else [F_const (\<lambda>p. p\<lparr>pd_xdpQueue := - 1\<rparr>)]) @
     [F_str ''url'' (\<lambda>v p. p\<lparr>pd_url := Some v\<rparr>),
      F_int ''pub_id'' (between 0 99999) ''Invalid pub_id'' (\<lambda>v p. p\<lparr>pd_id := v\<rparr>),
      F_int ''dataset_writer_id'' (between 0 99999) ''Invalid dataset_writer_id'' (\<lambda>v p. p\<lparr>pd_dataSetWriterId := v\<rparr>),
      F_int ''writer_group_id'' (between 0 99999) ''Invalid writerGroupId'' (\<lambda>v p. p\<lparr>pd_writerGroupId := v\<rparr>),
      F_bool ''two_way_data'' (\<lambda>v p. p\<lparr>pd_twoWayData := v\<rparr>),
      F_int ''iperf_cpu_affinity'' (between 0 3) ''Invalid iperf_cpu_affinity'' (\<lambda>v p. p\<lparr>pd_cpuAffinity := v\<rparr>)]"

definition sub_fields :: "bool \<Rightarrow> subscriber_data field list" where
  "sub_fields useXDP =
     [F_int ''offset_ns'' (between 0 10000000) ''Invalid offset_ns'' (\<lambda>v p. p\<lparr>sd_offsetNs := v\<rparr>)] @
     (if useXDP then [F_int ''xdp_queue'' (between 0 3) ''Invalid xdp_queue'' (\<lambda>v p. p\<lparr>sd_xdpQueue := v\<rparr>)]
      else [F_const (\<lambda>p. p\<lparr>sd_xdpQueue := - 1\<rparr>)]) @
     [F_str ''url'' (\<lambda>v p. p\<lparr>sd_url := Some v\<rparr>),
      F_int ''sub_id'' (between 0 99999) ''Invalid sub_id'' (\<lambda>v p. p\<lparr>sd_id := v\<rparr>),
      F_int ''subscribed_pub_id'' (between 0 99999) ''Invalid subscribed_pub_id'' (\<lambda>v p. p\<lparr>sd_subscribedPubId := v\<rparr>),
      F_int ''subscribed_dataset_writer_id'' (between 0 99999) ''Invalid subscribed_dataset_writer_id''
        (\<lambda>v p. p\<lparr>sd_subscribedDSWriterId := v\<rparr>),
      F_int ''subscribed_writer_group_id'' (between 0 99999) ''Invalid subscribed_writer_group_id''
        (\<lambda>v p. p\<lparr>sd_subscribedWGId := v\<rparr>),
      F_bool ''two_way_data'' (\<lambda>v p. p\<lparr>sd_twoWayData := v\<rparr>),
      F_int ''iperf_cpu_affinity'' (between 0 3) ''Invalid iperf_cpu_affinity'' (\<lambda>v p. p\<lparr>sd_cpuAffinity := v\<rparr>),
      F_str ''subscriber_output_file'' (\<lambda>v p. p\<lparr>sd_fileName := Some v\<rparr>)]"

text \<open>A subscriber: its fields, then its output file is opened.\<close>

definition parse_sub :: "'j jsonc \<Rightarrow> (string \<Rightarrow> bool) \<Rightarrow> bool \<Rightarrow> 'j \<Rightarrow> subscriber_data \<Rightarrow> subscriber_data \<times> jerr option" where
  "parse_sub js fopen_ok useXDP j d =
     (case parse_fields js j (sub_fields useXDP) d of
        (d', Some e) \<Rightarrow> (d', Some e)
      | (d', None) \<Rightarrow>
          (case sd_fileName d' of
             Some f \<Rightarrow> if fopen_ok f then (d'\<lparr>sd_fp := Some f\<rparr>, None)
                       else (d', Some (J_error ''Error in opening output file''))
           | None \<Rightarrow> (d', None)))"

text \<open>The loop over the children of an object; it stops at the first error, the rest stays zero.\<close>

fun parse_all :: "('j \<Rightarrow> 'r \<Rightarrow> 'r \<times> jerr option) \<Rightarrow> 'j list \<Rightarrow> 'r list \<Rightarrow> 'r list \<times> jerr option" where
  "parse_all p (j # js) (r # rs) =
     (case p j r of
        (r', Some e) \<Rightarrow> (r' # rs, Some e)
      | (r', None) \<Rightarrow> (case parse_all p js rs of (rs', e) \<Rightarrow> (r' # rs', e)))"
| "parse_all p _ rs = (rs, None)"

section \<open>free_resources\<close>

text \<open>The blocks and streams that are released, in order.\<close>

datatype block =
    B_pub_url nat | B_pubData | B_sub_url nat | B_sub_name nat | B_sub_file nat | B_subData
  | B_subInterface | B_pubInterface | B_sdata

definition free_if :: "'a option \<Rightarrow> block \<Rightarrow> block list" where
  "free_if v b = (case v of Some _ \<Rightarrow> [b] | None \<Rightarrow> [])"

fun free_pubs :: "nat \<Rightarrow> publisher_data list \<Rightarrow> block list" where
  "free_pubs i [] = []"
| "free_pubs i (p # ps) = free_if (pd_url p) (B_pub_url i) @ free_pubs (Suc i) ps"

fun free_subs :: "nat \<Rightarrow> subscriber_data list \<Rightarrow> block list" where
  "free_subs i [] = []"
| "free_subs i (d # ds) =
     free_if (sd_url d) (B_sub_url i) @ free_if (sd_fileName d) (B_sub_name i) @
     free_if (sd_fp d) (B_sub_file i) @ free_subs (Suc i) ds"

definition free_resources :: "server_data option \<Rightarrow> block list" where
  "free_resources sd =
     (case sd of
        None \<Rightarrow> []
      | Some s \<Rightarrow>
          (case s_pubData s of Some ps \<Rightarrow> free_pubs 0 ps @ [B_pubData] | None \<Rightarrow> []) @
          (case s_subData s of Some ds \<Rightarrow> free_subs 0 ds @ [B_subData] | None \<Rightarrow> []) @
          free_if (s_subInterface s) B_subInterface @ free_if (s_pubInterface s) B_pubInterface @ [B_sdata])"

section \<open>parseJson and parseArgs\<close>

datatype parse_res = PJ_exit string | PJ_null "block list" | PJ_ok server_data

record alloc =
  al_server :: bool
  al_pubs :: bool
  al_subs :: bool

definition parse_stop :: "server_data \<Rightarrow> jerr \<Rightarrow> parse_res" where
  "parse_stop s e = (case e of J_exit m \<Rightarrow> PJ_exit m | J_error m \<Rightarrow> PJ_null (free_resources (Some s)))"

text \<open>The publishers and subscribers, once the arrays are allocated.\<close>

definition parse_entries ::
  "'j jsonc \<Rightarrow> (string \<Rightarrow> bool) \<Rightarrow> 'j \<Rightarrow> 'j \<Rightarrow> server_data \<Rightarrow> parse_res" where
  "parse_entries js fopen_ok pubs subs s =
     (let ps0 = replicate (countChildrenEntries js pubs) zero_pub;
          ds0 = replicate (countChildrenEntries js subs) zero_sub;
          (ps, e) = parse_all (\<lambda>j. parse_fields js j (pub_fields (s_useXDP s))) (j_values js pubs) ps0;
          s1 = s\<lparr>s_pubData := Some ps, s_subData := Some ds0\<rparr>
      in case e of
           Some err \<Rightarrow> parse_stop s1 err
         | None \<Rightarrow>
             (case parse_all (parse_sub js fopen_ok (s_useXDP s)) (j_values js subs) ds0 of
                (ds, Some err) \<Rightarrow> parse_stop (s1\<lparr>s_subData := Some ds\<rparr>) err
              | (ds, None) \<Rightarrow> PJ_ok (s1\<lparr>s_subData := Some ds\<rparr>)))"

definition parseJson :: "'j jsonc \<Rightarrow> alloc \<Rightarrow> (string \<Rightarrow> bool) \<Rightarrow> 'j \<Rightarrow> parse_res" where
  "parseJson js al fopen_ok json =
     (if \<not> al_server al then PJ_null []
      else
        case parse_fields js json server_fields1 zero_server of
          (s, Some e) \<Rightarrow> parse_stop s e
        | (s, None) \<Rightarrow>
            (case parse_fields js json ((if s_useXDP s then server_fields_xdp else []) @ server_fields2) s of
               (s, Some e) \<Rightarrow> parse_stop s e
             | (s, None) \<Rightarrow>
                 (case getValue js json ''publishers'' of
                    Inl e \<Rightarrow> parse_stop s e
                  | Inr pubs \<Rightarrow>
                      if \<not> al_pubs al then PJ_null (free_resources (Some s))
                      else (case getValue js json ''subscribers'' of
                              Inl e \<Rightarrow> parse_stop s e
                            | Inr subs \<Rightarrow>
                                if \<not> al_subs al then PJ_null (B_pubData # free_resources (Some s))
                                else parse_entries js fopen_ok pubs subs s))))"

text \<open>\<^verbatim>\<open>parseArgs\<close>: \<open>file\<close> is what the library reads from the path, if it can.\<close>

definition parseArgs ::
  "'j jsonc \<Rightarrow> alloc \<Rightarrow> (string \<Rightarrow> bool) \<Rightarrow> (string \<Rightarrow> 'j option) \<Rightarrow> string option \<Rightarrow> parse_res" where
  "parseArgs js al fopen_ok from_file path =
     (case path of
        None \<Rightarrow> PJ_null []
      | Some f \<Rightarrow>
          (case from_file f of
             None \<Rightarrow> PJ_null []
           | Some root \<Rightarrow>
               (case getValue js root ''opcua_server'' of
                  Inl (J_exit m) \<Rightarrow> PJ_exit m
                | Inl (J_error m) \<Rightarrow> PJ_null []
                | Inr j \<Rightarrow> parseJson js al fopen_ok j)))"

section \<open>Small helpers\<close>

definition as_nanoseconds :: "timespec \<Rightarrow> u64" where
  "as_nanoseconds ts = word_of_int (tv_sec ts) * 1000000000 + word_of_int (tv_nsec ts)"

text \<open>\<^verbatim>\<open>setRtPriority\<close>: the return value, and the scheduling calls made (priority, core).\<close>

definition setRtPriority :: "int \<Rightarrow> nat \<Rightarrow> int \<Rightarrow> int \<Rightarrow> int \<Rightarrow> int \<times> (int option \<times> nat option)" where
  "setRtPriority priority cpu get_ret set_ret aff_ret =
     (if priority < 0 then (- 1, (None, None))
      else if get_ret \<noteq> 0 then (- 1, (None, None))
      else if set_ret \<noteq> 0 then (- 1, (Some priority, None))
      else if cpu = 0 then (0, (Some priority, None))
      else if aff_ret \<noteq> 0 then (- 1, (Some priority, Some cpu))
      else (0, (Some priority, Some cpu)))"

section \<open>What a successful parse means\<close>

text \<open>The update a field performs when it succeeds.\<close>

definition field_update :: "'r field \<Rightarrow> ('r \<Rightarrow> 'r) \<Rightarrow> bool" where
  "field_update f u =
     (case f of
        F_int key ok msg asg \<Rightarrow> \<exists>v. ok v \<and> u = asg v
      | F_int64 key ok msg asg \<Rightarrow> \<exists>v. ok v \<and> u = asg v
      | F_str key asg \<Rightarrow> \<exists>v. u = asg v
      | F_bool key asg \<Rightarrow> \<exists>v. u = asg v
      | F_const asg \<Rightarrow> u = asg)"

lemma field_update_simps [simp]:
  "field_update (F_int key ok msg asg) u \<longleftrightarrow> (\<exists>v. ok v \<and> u = asg v)"
  "field_update (F_int64 key ok msg asg) u \<longleftrightarrow> (\<exists>v. ok v \<and> u = asg v)"
  "field_update (F_str key asg') u \<longleftrightarrow> (\<exists>v. u = asg' v)"
  "field_update (F_bool key asg'') u \<longleftrightarrow> (\<exists>v. u = asg'' v)"
  "field_update (F_const c) u \<longleftrightarrow> u = c"
  by (simp_all add: field_update_def)

lemma parse_field_ok: "parse_field js j f r = (r', None) \<Longrightarrow> \<exists>u. field_update f u \<and> r' = u r"
  by (cases f) (auto simp: parse_field_def split: sum.splits if_splits)

lemma parse_fields_ok:
  "parse_fields js j fs r = (r', None) \<Longrightarrow> \<exists>us. list_all2 field_update fs us \<and> r' = fold (\<lambda>u. u) us r"
proof (induction fs arbitrary: r)
  case Nil
  then show ?case by simp
next
  case (Cons f fs)
  then obtain r1 where r1: "parse_field js j f r = (r1, None)" and "parse_fields js j fs r1 = (r', None)"
    by (auto split: prod.splits option.splits)
  with Cons.IH parse_field_ok [OF r1] obtain u us where "field_update f u" "r1 = u r"
    "list_all2 field_update fs us" "r' = fold (\<lambda>u. u) us r1"
    by blast
  then show ?case
    by (intro exI [of _ "u # us"]) simp
qed

lemma parse_all_ok:
  "parse_all p js rs = (rs', None) \<Longrightarrow> (\<And>j r r'. r \<in> set rs \<Longrightarrow> p j r = (r', None) \<Longrightarrow> P r') \<Longrightarrow> length js = length rs \<Longrightarrow>
     list_all P rs' \<and> length rs' = length rs"
proof (induction p js rs arbitrary: rs' rule: parse_all.induct)
  case (1 p j js r rs)
  obtain r1 rs1 where r1: "p j r = (r1, None)" and rs1: "parse_all p js rs = (rs1, None)" and "rs' = r1 # rs1"
    using "1.prems"(1) by (auto split: prod.splits option.splits)
  moreover have "P r1"
    using "1.prems"(2) [of r j r1] r1 by simp
  moreover have "list_all P rs1 \<and> length rs1 = length rs"
    using "1.IH" [OF r1 [symmetric] refl rs1] "1.prems"(2,3) by auto
  ultimately show ?case by simp
qed auto

definition pub_ok :: "publisher_data \<Rightarrow> bool" where
  "pub_ok p \<longleftrightarrow>
     0 \<le> pd_earlyOffsetNs p \<and> pd_earlyOffsetNs p \<le> 1000000 \<and>
     0 \<le> pd_publishOffsetNs p \<and> pd_publishOffsetNs p \<le> 10000000 \<and> 0 \<le> pd_publishDelaySec p \<and>
     0 \<le> pd_socketPriority p \<and> pd_socketPriority p \<le> 7 \<and> - 1 \<le> pd_xdpQueue p \<and> pd_xdpQueue p \<le> 3 \<and>
     pd_url p \<noteq> None \<and> 0 \<le> pd_id p \<and> pd_id p \<le> 99999 \<and>
     0 \<le> pd_dataSetWriterId p \<and> pd_dataSetWriterId p \<le> 99999 \<and>
     0 \<le> pd_writerGroupId p \<and> pd_writerGroupId p \<le> 99999 \<and> 0 \<le> pd_cpuAffinity p \<and> pd_cpuAffinity p \<le> 3"

definition sub_ok :: "subscriber_data \<Rightarrow> bool" where
  "sub_ok d \<longleftrightarrow>
     0 \<le> sd_offsetNs d \<and> sd_offsetNs d \<le> 10000000 \<and> - 1 \<le> sd_xdpQueue d \<and> sd_xdpQueue d \<le> 3 \<and>
     sd_url d \<noteq> None \<and> 0 \<le> sd_id d \<and> sd_id d \<le> 99999 \<and>
     0 \<le> sd_subscribedPubId d \<and> sd_subscribedPubId d \<le> 99999 \<and>
     0 \<le> sd_subscribedDSWriterId d \<and> sd_subscribedDSWriterId d \<le> 99999 \<and>
     0 \<le> sd_subscribedWGId d \<and> sd_subscribedWGId d \<le> 99999 \<and>
     0 \<le> sd_cpuAffinity d \<and> sd_cpuAffinity d \<le> 3 \<and> sd_fileName d \<noteq> None \<and> sd_fp d = sd_fileName d"

definition server_ok :: "server_data \<Rightarrow> bool" where
  "server_ok s \<longleftrightarrow>
     s_pubInterface s \<noteq> None \<and> s_subInterface s \<noteq> None \<and>
     0 \<le> s_pollingDurationNs s \<and> s_pollingDurationNs s \<le> 10000000 \<and>
     1 \<le> uint (s_packetCount s) \<and> uint (s_packetCount s) \<le> 10000000 \<and>
     100000 \<le> s_cycleTimeNs s \<and> s_cycleTimeNs s \<le> 5000000 \<and>
     (\<exists>ps. s_pubData s = Some ps \<and> list_all pub_ok ps) \<and> (\<exists>ds. s_subData s = Some ds \<and> list_all sub_ok ds)"

lemma pub_fields_ok: "parse_fields js j (pub_fields x) p = (p', None) \<Longrightarrow> pub_ok p'"
  by (drule parse_fields_ok) (cases x; auto simp: pub_fields_def list_all2_Cons1 pub_ok_def between_def)

lemma sub_fields_ok:
  assumes "parse_fields js j (sub_fields x) d = (d', None)"
  shows "sub_ok (d'\<lparr>sd_fp := sd_fileName d'\<rparr>)" and "sd_fileName d' \<noteq> None"
  using parse_fields_ok [OF assms]
  by (cases x; auto simp: sub_fields_def list_all2_Cons1 sub_ok_def between_def)+

lemma parse_sub_ok: "parse_sub js fo x j d = (d', None) \<Longrightarrow> sub_ok d'"
  using sub_fields_ok by (fastforce simp: parse_sub_def split: prod.splits option.splits if_splits)

lemma server_fields_ok:
  assumes "parse_fields js j server_fields1 zero_server = (s1, None)"
    and "parse_fields js j ((if s_useXDP s1 then server_fields_xdp else []) @ server_fields2) s1 = (s2, None)"
    and "list_all pub_ok ps" and "list_all sub_ok ds"
  shows "server_ok (s2\<lparr>s_pubData := Some ps, s_subData := Some ds\<rparr>)"
proof -
  have "s_pubInterface s1 \<noteq> None \<and> s_subInterface s1 \<noteq> None"
    using parse_fields_ok [OF assms(1)] by (auto simp: server_fields1_def list_all2_Cons1)
  then show ?thesis
    using parse_fields_ok [OF assms(2)] assms(3,4)
    by (cases "s_useXDP s1")
      (auto simp: server_fields_xdp_def server_fields2_def list_all2_Cons1 server_ok_def between_def)
qed

lemma parse_entries_ok:
  assumes "parse_entries js fo pubs subs s = PJ_ok s'"
    and "\<And>j. j_length js j = length (j_values js j)"
  shows "\<exists>ps ds. s' = s\<lparr>s_pubData := Some ps, s_subData := Some ds\<rparr> \<and> list_all pub_ok ps \<and> list_all sub_ok ds \<and>
           length ps = j_length js pubs \<and> length ds = j_length js subs"
proof -
  let ?pp = "\<lambda>j. parse_fields js j (pub_fields (s_useXDP s))" and ?sp = "parse_sub js fo (s_useXDP s)"
  let ?ps0 = "replicate (j_length js pubs) zero_pub" and ?ds0 = "replicate (j_length js subs) zero_sub"
  obtain ps ds where ps: "parse_all ?pp (j_values js pubs) ?ps0 = (ps, None)"
    and ds: "parse_all ?sp (j_values js subs) ?ds0 = (ds, None)"
    and s': "s' = s\<lparr>s_pubData := Some ps, s_subData := Some ds\<rparr>"
    using assms(1)
    by (auto simp: parse_entries_def countChildrenEntries_def Let_def parse_stop_def
        split: prod.splits option.splits jerr.splits)
  have "list_all pub_ok ps \<and> length ps = length ?ps0"
    by (rule parse_all_ok [OF ps]) (use pub_fields_ok assms(2) [of pubs] in auto)
  moreover have "list_all sub_ok ds \<and> length ds = length ?ds0"
    by (rule parse_all_ok [OF ds]) (use parse_sub_ok assms(2) [of subs] in auto)
  ultimately show ?thesis using s' by auto
qed

lemma free_pubs_range: "b \<in> set (free_pubs i ps) \<Longrightarrow> \<exists>k. b = B_pub_url k \<and> i \<le> k"
  by (induction i ps rule: free_pubs.induct) (fastforce simp: free_if_def split: option.splits)+

lemma free_subs_range:
  "b \<in> set (free_subs i ds) \<Longrightarrow> \<exists>k. b \<in> {B_sub_url k, B_sub_name k, B_sub_file k} \<and> i \<le> k"
  by (induction i ds rule: free_subs.induct) (fastforce simp: free_if_def split: option.splits)+

lemma free_pubs_distinct: "distinct (free_pubs i ps)"
  by (induction i ps rule: free_pubs.induct)
    (auto simp: free_if_def dest: free_pubs_range split: option.splits)

lemma free_subs_distinct: "distinct (free_subs i ds)"
  by (induction i ds rule: free_subs.induct)
    (auto simp: free_if_def dest: free_subs_range split: option.splits)

lemma parseJson_ok:
  assumes "parseJson js al fopen_ok json = PJ_ok s" and "\<And>j. j_length js j = length (j_values js j)"
  shows "server_ok s \<and>
    (\<exists>pubs subs. j_get js json ''publishers'' = Some pubs \<and> j_get js json ''subscribers'' = Some subs \<and>
       length (the (s_pubData s)) = j_length js pubs \<and> length (the (s_subData s)) = j_length js subs)"
proof -
  have stop: "parse_stop x e \<noteq> PJ_ok s" for x e
    by (cases e) (simp_all add: parse_stop_def)
  obtain s1 s2 pubs subs where s1: "parse_fields js json server_fields1 zero_server = (s1, None)"
    and s2: "parse_fields js json ((if s_useXDP s1 then server_fields_xdp else []) @ server_fields2) s1 = (s2, None)"
    and get: "j_get js json ''publishers'' = Some pubs" "j_get js json ''subscribers'' = Some subs"
    and ent: "parse_entries js fopen_ok pubs subs s2 = PJ_ok s"
    using assms(1) stop
    by (auto simp: parseJson_def getValue_def split: if_splits prod.splits option.splits sum.splits)
  obtain ps ds where s: "s = s2\<lparr>s_pubData := Some ps, s_subData := Some ds\<rparr>"
    and ok: "list_all pub_ok ps" "list_all sub_ok ds" and len: "length ps = j_length js pubs" "length ds = j_length js subs"
    using parse_entries_ok [OF ent assms(2)] by blast
  from server_fields_ok [OF s1 s2 ok] s get len show ?thesis by simp
qed

lemma parseArgs_ok:
  assumes "parseArgs js al fopen_ok from_file path = PJ_ok s" and "\<And>j. j_length js j = length (j_values js j)"
  shows "server_ok s"
  using assms(1) parseJson_ok [OF _ assms(2)]
  by (auto simp: parseArgs_def split: option.splits sum.splits jerr.splits)

text \<open>What is released when every pointer is set: all blocks of the structure, and the streams that are open.\<close>

lemma free_pubs_set:
  "list_all (\<lambda>p. pd_url p \<noteq> None) ps \<Longrightarrow> set (free_pubs i ps) = B_pub_url ` {i..<i + length ps}"
  by (induction i ps rule: free_pubs.induct) (auto simp: free_if_def image_iff Suc_le_eq le_eq_less_or_eq)

lemma free_subs_set:
  "list_all (\<lambda>d. sd_url d \<noteq> None \<and> sd_fileName d \<noteq> None) ds \<Longrightarrow>
     set (free_subs i ds) = B_sub_url ` {i..<i + length ds} \<union> B_sub_name ` {i..<i + length ds} \<union>
       {B_sub_file (i + k) | k. k < length ds \<and> sd_fp (ds ! k) \<noteq> None}"
proof (induction i ds rule: free_subs.induct)
  case (2 i d ds)
  have iv: "{i..<i + length (d # ds)} = insert i {Suc i..<Suc i + length ds}"
    by auto
  have "{B_sub_file (i + k) | k. k < length (d # ds) \<and> sd_fp ((d # ds) ! k) \<noteq> None} =
      set (free_if (sd_fp d) (B_sub_file i)) \<union>
      {B_sub_file (Suc i + k) | k. k < length ds \<and> sd_fp (ds ! k) \<noteq> None}" (is "?l = ?r")
  proof (rule set_eqI)
    fix b
    have "b \<in> ?l \<longleftrightarrow> (\<exists>k < Suc (length ds). sd_fp ((d # ds) ! k) \<noteq> None \<and> b = B_sub_file (i + k))"
      by auto
    also have "\<dots> \<longleftrightarrow> b \<in> ?r"
      by (subst Ex_less_Suc2) (auto simp: free_if_def split: option.split)
    finally show "b \<in> ?l \<longleftrightarrow> b \<in> ?r" .
  qed
  moreover have "set (free_if (sd_url d) (B_sub_url i)) = {B_sub_url i}"
    and "set (free_if (sd_fileName d) (B_sub_name i)) = {B_sub_name i}"
    using "2.prems" by (auto simp: free_if_def)
  ultimately show ?case
    using 2 unfolding iv by auto
qed simp

section \<open>Properties\<close>


text \<open>A small JSON library, to run the parser on a document.\<close>

datatype jval = JStr string | JNum int | JBool bool | JObj "(string \<times> jval) list"

definition ex_js :: "jval jsonc" where
  "ex_js = \<lparr>j_get = (\<lambda>j k. case j of JObj kvs \<Rightarrow> map_of kvs k | _ \<Rightarrow> None),
     j_type = (\<lambda>j. case j of JStr _ \<Rightarrow> J_string | JNum _ \<Rightarrow> J_int | JBool _ \<Rightarrow> J_boolean | JObj _ \<Rightarrow> J_object),
     j_str = (\<lambda>j. case j of JStr s \<Rightarrow> s | _ \<Rightarrow> []),
     j_int = (\<lambda>j. case j of JNum n \<Rightarrow> n | _ \<Rightarrow> 0), j_int64 = (\<lambda>j. case j of JNum n \<Rightarrow> n | _ \<Rightarrow> 0),
     j_bool = (\<lambda>j. case j of JBool b \<Rightarrow> b | _ \<Rightarrow> False),
     j_length = (\<lambda>j. case j of JObj kvs \<Rightarrow> length kvs | _ \<Rightarrow> 0),
     j_values = (\<lambda>j. case j of JObj kvs \<Rightarrow> map snd kvs | _ \<Rightarrow> []),
     j_print = (\<lambda>_. [])\<rparr>"

definition ex_pub_json :: jval where
  "ex_pub_json = JObj [(''early_offset_ns'', JNum 600000), (''publish_offset_ns'', JNum 2000000),
     (''publish_delay_sec'', JNum 5), (''socket_prio'', JNum 3), (''url'', JStr ''opc.eth://22-bb-22-bb-22-bb''),
     (''pub_id'', JNum 2234), (''dataset_writer_id'', JNum 62541), (''writer_group_id'', JNum 100),
     (''two_way_data'', JBool False), (''iperf_cpu_affinity'', JNum 1)]"

definition ex_json :: jval where
  "ex_json = JObj [(''publisher_interface'', JStr ''eth0.3''), (''subscriber_interface'', JStr ''eth0.3''),
     (''use_xdp'', JBool False), (''polling_duration_ns'', JNum 0), (''packet_count'', JNum 1000),
     (''cycle_time_ns'', JNum 2000000), (''publishers'', JObj [(''pub1'', ex_pub_json)]), (''subscribers'', JObj [])]"


text \<open>
  \<^verbatim>\<open>free_resources\<close> releases nothing twice, at whatever point of the parsing it is called: the
  blocks and streams it frees are distinct, and the structure itself is freed last.
\<close>

theorem free_resources_once:
  "distinct (free_resources sd) \<and> (\<forall>s. sd = Some s \<longrightarrow> last (free_resources sd) = B_sdata)"
proof (cases sd)
  case None
  then show ?thesis by (simp add: free_resources_def)
next
  case (Some s)
  have dp: "distinct (case s_pubData s of Some ps \<Rightarrow> free_pubs 0 ps @ [B_pubData] | None \<Rightarrow> [])"
    and ds: "distinct (case s_subData s of Some ds \<Rightarrow> free_subs 0 ds @ [B_subData] | None \<Rightarrow> [])"
    using free_pubs_distinct free_subs_distinct
    by (auto split: option.split dest: free_pubs_range free_subs_range)
  show ?thesis
    using Some dp ds
    by (auto simp: free_resources_def free_if_def split: option.splits dest!: free_pubs_range free_subs_range)
qed

end
