(* ===== verification/Opcua_Datasource.thy ===== *)
theory Opcua_Datasource
  imports Opcua_Config
begin

text \<open>
  \<^verbatim>\<open>src/opcua-tsn/opcua_datasource.c\<close>: the callbacks that produce and consume the published
  values. A publisher A sends a sequence number and a time; subscriber B logs them and, for the
  round trip, hands them through a message queue to the returning publisher B; subscriber A logs
  the returned values with the latencies of both directions.

  The file-level variables and the globals they share with the threads are \<open>ds_glob\<close>. The
  message queue is the list of messages sent and not yet received; the answers of \<^verbatim>\<open>msgsnd\<close> and
  \<^verbatim>\<open>msgrcv\<close> are arguments. A received value is \<open>D_null\<close> or a variant with its array length and
  its data; reading beyond the data is the result \<open>None\<close>. A publisher callback returns the array
  it hands to \<^verbatim>\<open>UA_Variant_setArrayCopy\<close>.
\<close>

section \<open>State\<close>

record msgq_buf =
  mq_sequence :: u64
  mq_txTime :: u64
  mq_rxTime :: u64

record ds_glob =
  tx_sequence :: i64
  prev_rx_sequence :: u64
  g_running :: bool
  g_pubReturn :: bool
  packetCount :: u64
  g_msqid :: int
  msgq :: "msgq_buf list"

definition ds_init :: "u64 \<Rightarrow> int \<Rightarrow> bool \<Rightarrow> ds_glob" where
  "ds_init count q ret =
     \<lparr>tx_sequence = - 2, prev_rx_sequence = 999, g_running = True, g_pubReturn = ret, packetCount = count,
      g_msqid = q, msgq = []\<rparr>"

text \<open>The output file of a subscriber: open or closed, and the lines written.\<close>

record sub_file =
  fp_open :: bool
  fp_lines :: "string list"

datatype ua_data = D_null | D_variant u64 "u64 list option"

definition ERROR_DUPLICATE :: u64 where "ERROR_DUPLICATE = 3131313131313131313"
definition ERROR_MSGQ_COPY :: u64 where "ERROR_MSGQ_COPY = 4343434343434343434"
definition ERROR_NOTHING_TO_FORWARD :: u64 where "ERROR_NOTHING_TO_FORWARD = 5656565656565656565"

definition fp_print :: "string \<Rightarrow> sub_file \<Rightarrow> sub_file" where
  "fp_print l f = (if fp_open f then f\<lparr>fp_lines := fp_lines f @ [l]\<rparr> else f)"

definition fp_close :: "sub_file \<Rightarrow> sub_file" where
  "fp_close f = f\<lparr>fp_open := False\<rparr>"

definition ld :: "u64 \<Rightarrow> string" where
  "ld w = show_int (sint w)"

section \<open>Publisher A\<close>

definition pubGetDataToTransmit :: "timespec \<Rightarrow> ds_glob \<Rightarrow> u64 list \<times> ds_glob" where
  "pubGetDataToTransmit now g =
     (let g1 = g\<lparr>tx_sequence := tx_sequence g + 1\<rparr>;
          d = [tx_sequence g1, as_nanoseconds now]
      in (d, if tx_sequence g1 = packetCount g1 then g1\<lparr>g_running := False\<rparr> else g1))"

section \<open>Subscriber B\<close>

definition is_empty_variant :: "u64 \<Rightarrow> u64 list option \<Rightarrow> bool" where
  "is_empty_variant len v \<longleftrightarrow> len = - 1 \<and> v = None"

text \<open>The line of a packet: latency, sequence number, subscriber, send time, a zero and the receive time.\<close>

definition sub_line :: "int \<Rightarrow> u64 \<Rightarrow> u64 \<Rightarrow> u64 \<Rightarrow> string" where
  "sub_line sid sq txTime rxTime =
     ld (rxTime - txTime) @ tab @ ld sq @ tab @ show_int sid @ tab @ ld txTime @ tab @ ld 0 @ tab @ ld rxTime @ ''\<newline>''"

text \<open>The end of the reception: the file is closed and the server told to stop.\<close>

definition sub_finish :: "sub_file \<times> ds_glob \<Rightarrow> sub_file \<times> ds_glob" where
  "sub_finish fg = ((if fp_open (fst fg) then fp_close (fst fg) else fst fg), (snd fg)\<lparr>g_running := False\<rparr>)"

definition subStoreDataReceived ::
  "int \<Rightarrow> ua_data \<Rightarrow> timespec \<Rightarrow> bool \<Rightarrow> sub_file \<times> ds_glob \<Rightarrow> (sub_file \<times> ds_glob) option" where
  "subStoreDataReceived sid data now snd_ok fg =
     (case data of
        D_null \<Rightarrow> Some fg
      | D_variant len v \<Rightarrow>
          if is_empty_variant len v then Some fg
          else if len = - 1 \<or> len > 0 then
            (case v of
               Some (a # b # _) \<Rightarrow>
                 let rxTime = as_nanoseconds now;
                     m = \<lparr>mq_sequence = a, mq_txTime = b, mq_rxTime = rxTime\<rparr>;
                     f1 = fp_print (sub_line sid a b rxTime) (fst fg);
                     g1 = (snd fg)\<lparr>g_pubReturn := True\<rparr>;
                     g2 = (if g_msqid g1 \<ge> 0 \<and> snd_ok then g1\<lparr>msgq := msgq g1 @ [m]\<rparr> else g1)
                 in Some (if a = packetCount g2 then sub_finish (f1, g2) else (f1, g2))
             | _ \<Rightarrow> None)
          else Some (if 999 = packetCount (snd fg) then sub_finish fg else fg))"

section \<open>Returning publisher B\<close>

text \<open>
  At most 15 attempts to receive a message; the list holds what each finds. Without a message the
  buffer keeps its initial value.
\<close>

definition msgq_none :: msgq_buf where
  "msgq_none = \<lparr>mq_sequence = 888, mq_txTime = 888, mq_rxTime = 888\<rparr>"

fun msgq_window :: "nat \<Rightarrow> msgq_buf option list \<Rightarrow> msgq_buf" where
  "msgq_window (Suc n) (Some m # rs) = m"
| "msgq_window (Suc n) (None # rs) = msgq_window n rs"
| "msgq_window _ _ = msgq_none"

text \<open>The validation of the message: the three values to forward, and the changed globals.\<close>

definition pubr_classify :: "msgq_buf \<Rightarrow> ds_glob \<Rightarrow> (u64 \<times> u64 \<times> u64) \<times> ds_glob" where
  "pubr_classify m g =
     (let q = mq_sequence m; rx = mq_rxTime m; tx = mq_txTime m; same = (\<lambda>e. (e, e, e))
      in if q < 10 \<and> rx = 999 \<and> tx = 999 then ((q, tx, rx), g\<lparr>g_pubReturn := False\<rparr>)
         else if q < 10 \<and> rx = 888 \<and> tx = 888 then ((q, tx, rx), g\<lparr>g_pubReturn := False\<rparr>)
         else if q = 999 \<and> rx = 999 \<and> tx = 999 then (same ERROR_NOTHING_TO_FORWARD, g)
         else if q = 888 \<and> rx = 888 \<and> tx = 888 then (same ERROR_MSGQ_COPY, g)
         else if q = prev_rx_sequence g \<and> q > 10 \<and> rx \<noteq> 999 then (same ERROR_DUPLICATE, g)
         else ((q, tx, rx), g\<lparr>tx_sequence := tx_sequence g + 1\<rparr>))"

definition is_error :: "u64 \<Rightarrow> bool" where
  "is_error q \<longleftrightarrow> q = ERROR_DUPLICATE \<or> q = ERROR_MSGQ_COPY \<or> q = ERROR_NOTHING_TO_FORWARD"

text \<open>The call from there on: the packet that is sent, the end of the measurement, the number remembered.\<close>

definition pubr_finish :: "msgq_buf \<Rightarrow> timespec \<Rightarrow> ds_glob \<Rightarrow> u64 list \<times> ds_glob" where
  "pubr_finish m now g =
     (let ((q, tx, rx), g1) = pubr_classify m g;
          d = [q, tx, rx, tx_sequence g1, as_nanoseconds now];
          g2 = (if sint (tx_sequence g1) \<ge> sint (packetCount g1) then g1\<lparr>g_running := False\<rparr> else g1);
          g3 = (if \<not> is_error q then g2\<lparr>prev_rx_sequence := q\<rparr> else g2)
      in (d, g3))"

definition pubReturnGetDataToTransmit ::
  "msgq_buf option list \<Rightarrow> timespec \<Rightarrow> ds_glob \<Rightarrow> u64 list \<times> ds_glob" where
  "pubReturnGetDataToTransmit rcv now g = pubr_finish (msgq_window 15 rcv) now g"

section \<open>Subscriber A of the round trip\<close>

definition subr_line :: "int \<Rightarrow> u64 \<Rightarrow> u64 \<Rightarrow> u64 \<Rightarrow> u64 \<Rightarrow> u64 \<Rightarrow> u64 \<Rightarrow> string" where
  "subr_line sid seqA txPubA rxSubB seqB txPubB rxSubA =
     (if seqA = ERROR_DUPLICATE then ''ERROR_DUPLICATE_SKIPPED\<newline>''
      else if seqA = ERROR_MSGQ_COPY then ''ERROR_MSGQ_COPY\<newline>''
      else if seqA = ERROR_NOTHING_TO_FORWARD then ''ERROR_NOTHING_TO_FORWARD\<newline>''
      else ld (rxSubB - txPubA) @ tab @ ld seqA @ tab @ show_int sid @ tab @ ld txPubA @ tab @ ld 0 @ tab @
           ld rxSubB @ tab @ ld (txPubB - rxSubB) @ tab @ ld (rxSubA - txPubB) @ tab @ ld seqB @ tab @
           show_int sid @ tab @ ld txPubB @ tab @ ld 0 @ tab @ ld rxSubA @ tab @ ld (rxSubA - txPubA) @ ''\<newline>'')"

definition subReturnStoreDataReceived ::
  "int \<Rightarrow> ua_data \<Rightarrow> timespec \<Rightarrow> sub_file \<times> ds_glob \<Rightarrow> (sub_file \<times> ds_glob) option" where
  "subReturnStoreDataReceived sid data now fg =
     (let stop = (\<lambda>seqA fg. if \<not> is_error seqA \<and> seqA \<ge> packetCount (snd fg) then sub_finish fg else fg)
      in case data of
           D_null \<Rightarrow> Some fg
         | D_variant len v \<Rightarrow>
             if is_empty_variant len v then Some fg
             else if len = - 1 \<or> len > 0 then
               (case v of
                  Some (a # b # c # d # e # _) \<Rightarrow>
                    Some (stop a (fp_print (subr_line sid a b c d e (as_nanoseconds now)) (fst fg), snd fg))
                | _ \<Rightarrow> None)
             else Some (stop 0 fg))"

section \<open>The two callbacks that are not used\<close>

definition dummyDSRead :: "ua_data \<Rightarrow> ua_data" where "dummyDSRead v = v"
definition dummyDSWrite :: "ua_data \<Rightarrow> ua_data" where "dummyDSWrite v = v"

section \<open>Lemmas\<close>

text \<open>Successive calls of a publisher callback, one per cycle, with the time of each.\<close>

fun pub_calls :: "timespec list \<Rightarrow> ds_glob \<Rightarrow> u64 list list \<times> ds_glob" where
  "pub_calls [] g = ([], g)"
| "pub_calls (t # ts) g =
     (case pubGetDataToTransmit t g of
        (d, g1) \<Rightarrow> (case pub_calls ts g1 of (ds, g2) \<Rightarrow> (d # ds, g2)))"

lemma pub_calls_sent:
  "fst (pub_calls ts g) = map (\<lambda>k. [tx_sequence g + 1 + of_nat k, as_nanoseconds (ts ! k)]) [0..<length ts]"
proof (induction ts arbitrary: g)
  case Nil
  then show ?case by simp
next
  case (Cons t ts)
  have seq: "tx_sequence (snd (pubGetDataToTransmit t g)) = tx_sequence g + 1"
    and d: "fst (pubGetDataToTransmit t g) = [tx_sequence g + 1, as_nanoseconds t]"
    by (simp_all add: pubGetDataToTransmit_def Let_def)
  have "map (\<lambda>k. [tx_sequence g + 1 + 1 + of_nat k, as_nanoseconds (ts ! k)]) [0..<length ts] =
      map (\<lambda>k. [tx_sequence g + 1 + of_nat k, as_nanoseconds ((t # ts) ! k)]) [1..<Suc (length ts)]"
    by (rule nth_equalityI) (simp_all add: algebra_simps del: upt_Suc)
  then show ?case
    using Cons.IH [of "snd (pubGetDataToTransmit t g)"] seq d
    by (simp add: upt_conv_Cons split_beta del: upt_Suc)
qed

text \<open>The server is told to stop by the call that sends the last number.\<close>

lemma pub_calls_running:
  "g_running (snd (pub_calls ts g)) \<longleftrightarrow>
     g_running g \<and> (\<forall>k < length ts. tx_sequence g + 1 + of_nat k \<noteq> packetCount g)"
proof (induction ts arbitrary: g)
  case Nil
  then show ?case by simp
next
  case (Cons t ts)
  let ?g = "snd (pubGetDataToTransmit t g)"
  have g: "tx_sequence ?g = tx_sequence g + 1" "packetCount ?g = packetCount g"
    "g_running ?g \<longleftrightarrow> g_running g \<and> tx_sequence g + 1 \<noteq> packetCount g"
    by (simp_all add: pubGetDataToTransmit_def Let_def)
  have "(\<forall>k < Suc (length ts). tx_sequence g + 1 + of_nat k \<noteq> packetCount g) \<longleftrightarrow>
      tx_sequence g + 1 \<noteq> packetCount g \<and> (\<forall>k < length ts. tx_sequence g + 1 + 1 + of_nat k \<noteq> packetCount g)"
    by (subst All_less_Suc2) (simp add: algebra_simps)
  then show ?case
    using Cons.IH [of ?g] g by (simp add: split_beta)
qed

lemma msgq_window_first: "0 < n \<Longrightarrow> msgq_window n (Some m # rs) = m"
  by (cases n) simp_all

text \<open>A message that is forwarded as it is.\<close>

definition forwardable :: "msgq_buf \<Rightarrow> ds_glob \<Rightarrow> bool" where
  "forwardable m g \<longleftrightarrow>
     mq_rxTime m \<notin> {888, 999} \<and> \<not> (mq_sequence m = prev_rx_sequence g \<and> mq_sequence m > 10) \<and>
     \<not> is_error (mq_sequence m)"

lemma pubr_forwards:
  assumes "forwardable m g"
  shows "\<exists>g'. pubReturnGetDataToTransmit (Some m # rs) now g =
           ([mq_sequence m, mq_txTime m, mq_rxTime m, tx_sequence g + 1, as_nanoseconds now], g') \<and>
         prev_rx_sequence g' = mq_sequence m \<and> tx_sequence g' = tx_sequence g + 1"
proof -
  have w: "msgq_window 15 (Some m # rs) = m"
    by (rule msgq_window_first) simp
  show ?thesis
    using assms
    by (auto simp: pubReturnGetDataToTransmit_def pubr_finish_def w pubr_classify_def forwardable_def Let_def)
qed

lemma pubr_duplicate:
  assumes "mq_sequence m = prev_rx_sequence g" and "mq_sequence m > 10" and "mq_rxTime m \<notin> {888, 999}"
  shows "\<exists>g'. pubReturnGetDataToTransmit (Some m # rs) now g =
           ([ERROR_DUPLICATE, ERROR_DUPLICATE, ERROR_DUPLICATE, tx_sequence g, as_nanoseconds now], g') \<and>
         prev_rx_sequence g' = prev_rx_sequence g \<and> tx_sequence g' = tx_sequence g"
proof -
  have w: "msgq_window 15 (Some m # rs) = m"
    by (rule msgq_window_first) simp
  have "\<not> mq_sequence m < 10" using assms(2) by auto
  with assms show ?thesis
    by (auto simp: pubReturnGetDataToTransmit_def pubr_finish_def w pubr_classify_def is_error_def Let_def)
qed

text \<open>The k-th packet carries the number \<open>k - 1\<close>; which of them carries the configured count.\<close>

lemma number_is_count:
  assumes "k < 2 ^ 32" and "unat count \<le> 10000000"
  shows "(word_of_int (int k - 1) :: u64) = count \<longleftrightarrow> k = unat count + 1"
proof -
  have "(word_of_int (int k - 1) :: u64) = count \<longleftrightarrow> (of_nat k :: u64) = count + 1"
    by (auto simp: algebra_simps)
  also have "\<dots> \<longleftrightarrow> unat (of_nat k :: u64) = unat (count + 1)"
    by (auto intro: unsigned_word_eqI)
  also have "\<dots> \<longleftrightarrow> k = unat count + 1"
    using assms by (simp add: unat_of_nat unat_word_ariths)
  finally show ?thesis .
qed

text \<open>The subscriber callback on packets that arrive one after another, each with its time of arrival.\<close>

fun sub_calls :: "int \<Rightarrow> (u64 list \<times> timespec) list \<Rightarrow> sub_file \<times> ds_glob \<Rightarrow> (sub_file \<times> ds_glob) option" where
  "sub_calls sid [] fg = Some fg"
| "sub_calls sid ((d, t) # ps) fg =
     (case subStoreDataReceived sid (D_variant (of_nat (length d)) (Some d)) t True fg of
        None \<Rightarrow> None
      | Some fg' \<Rightarrow> sub_calls sid ps fg')"

lemma sub_calls_append:
  "sub_calls sid (ps @ qs) fg = (case sub_calls sid ps fg of None \<Rightarrow> None | Some fg' \<Rightarrow> sub_calls sid qs fg')"
  by (induction ps arbitrary: fg) (auto split: option.split)

lemma subStore_logs:
  assumes "fp_open f" and "g_msqid g < 0"
  shows "subStoreDataReceived sid (D_variant 2 (Some [a, b])) t True (f, g) =
    Some (f\<lparr>fp_lines := fp_lines f @ [sub_line sid a b (as_nanoseconds t)], fp_open := (a \<noteq> packetCount g)\<rparr>,
          g\<lparr>g_pubReturn := True, g_running := (g_running g \<and> a \<noteq> packetCount g)\<rparr>)"
  using assms
  by (auto simp: subStoreDataReceived_def is_empty_variant_def fp_print_def sub_finish_def fp_close_def Let_def)

text \<open>Packets that are not the last one are logged one after another.\<close>

lemma sub_calls_log:
  "fp_open f \<Longrightarrow> g_msqid g < 0 \<Longrightarrow> \<forall>p \<in> set ps. fst p \<noteq> packetCount g \<Longrightarrow>
     \<exists>g'. sub_calls sid (map (\<lambda>(a, b, t). ([a, b], t)) ps) (f, g) =
            Some (f\<lparr>fp_lines := fp_lines f @ map (\<lambda>(a, b, t). sub_line sid a b (as_nanoseconds t)) ps\<rparr>, g') \<and>
          g_msqid g' = g_msqid g \<and> packetCount g' = packetCount g"
proof (induction ps arbitrary: f g)
  case Nil
  then show ?case by simp
next
  case (Cons p ps)
  obtain a b t where p: "p = (a, b, t)" by (cases p) auto
  let ?f = "f\<lparr>fp_lines := fp_lines f @ [sub_line sid a b (as_nanoseconds t)]\<rparr>"
  let ?g = "g\<lparr>g_pubReturn := True, g_running := g_running g\<rparr>"
  have "subStoreDataReceived sid (D_variant 2 (Some [a, b])) t True (f, g) = Some (?f, ?g)"
    using subStore_logs [OF Cons.prems(1,2), of sid a b t] Cons.prems(1,3) p by simp
  moreover have "(of_nat (length [a, b]) :: u64) = 2" by simp
  ultimately show ?case
    using Cons.IH [of ?f ?g] Cons.prems p by (auto simp del: of_nat_add of_nat_Suc)
qed

section \<open>Properties\<close>

text \<open>
  The publisher numbers its packets -1, 0, 1, 2, \<dots> without a gap, each with the time at
  which it was prepared, and stops the server with the packet that carries the configured count,
  neither earlier nor later.
\<close>

theorem publisher_sequence:
  assumes "1 \<le> unat count" and "unat count \<le> 10000000" and "length ts \<le> 2 ^ 32"
  shows "fst (pub_calls ts (ds_init count q r)) =
           map (\<lambda>k. [word_of_int (int k - 1), as_nanoseconds (ts ! k)]) [0..<length ts] \<and>
         (g_running (snd (pub_calls ts (ds_init count q r))) \<longleftrightarrow> length ts < unat count + 2)"
proof -
  have seq: "- 2 + 1 + of_nat k = (word_of_int (int k - 1) :: u64)" for k
    by simp
  have "(\<forall>k < length ts. - 2 + 1 + of_nat k \<noteq> count) \<longleftrightarrow> (\<forall>k < length ts. k \<noteq> unat count + 1)"
  proof (intro all_cong)
    fix k assume "k < length ts"
    then have "k < 2 ^ 32"
      using assms(3) by (rule order_less_le_trans)
    then show "(- 2 + 1 + of_nat k \<noteq> count) = (k \<noteq> unat count + 1)"
      using number_is_count [OF _ assms(2)] seq by simp
  qed
  also have "\<dots> \<longleftrightarrow> length ts < unat count + 2"
  proof
    assume "\<forall>k < length ts. k \<noteq> unat count + 1"
    then have "\<not> unat count + 1 < length ts" by blast
    then show "length ts < unat count + 2" by simp
  qed auto
  finally have "(\<forall>k < length ts. - 2 + 1 + of_nat k \<noteq> count) \<longleftrightarrow> length ts < unat count + 2" .
  then show ?thesis
    using pub_calls_sent [of ts "ds_init count q r"] pub_calls_running [of ts "ds_init count q r"] seq
    by (simp add: ds_init_def)
qed

theorem publisher_sequence_witness:
  "fst (pub_calls [Timespec 1 0, Timespec 2 0, Timespec 3 0] (ds_init 1 (- 1) True)) =
     [[- 1, 1000000000], [0, 2000000000], [1, 3000000000]] \<and>
   \<not> g_running (snd (pub_calls [Timespec 1 0, Timespec 2 0, Timespec 3 0] (ds_init 1 (- 1) True)))"
  using publisher_sequence [of 1 "[Timespec 1 0, Timespec 2 0, Timespec 3 0]" "- 1" True]
  by (simp add: as_nanoseconds_def upt_conv_Cons)

text \<open>
  C33: the round trip of one packet. What subscriber B receives goes through the message queue into the next
  packet of the returning publisher, and subscriber A logs the sequence number of the first leg
  with the three latencies A to B, inside B, and B to A; their sum is the round-trip latency it
  logs last.
\<close>

theorem round_trip:
  assumes "subStoreDataReceived sidB (D_variant 2 (Some [a, b])) nowB True (fB, gB) = Some (fB', gB')"
    and "g_msqid gB \<ge> 0" and "msgq gB = []" and "rB = as_nanoseconds nowB"
    and "forwardable \<lparr>mq_sequence = a, mq_txTime = b, mq_rxTime = rB\<rparr> gB"
    and "fp_open fA" and "tB = as_nanoseconds nowB'" and "rA = as_nanoseconds nowA"
  shows "\<exists>m d gB'' fA' gA'. msgq gB' = [m] \<and> pubReturnGetDataToTransmit [Some m] nowB' gB' = (d, gB'') \<and>
     subReturnStoreDataReceived sidA (D_variant 5 (Some d)) nowA (fA, gA) = Some (fA', gA') \<and>
     fp_lines fA' = fp_lines fA @
       [ld (rB - b) @ tab @ ld a @ tab @ show_int sidA @ tab @ ld b @ tab @ ld 0 @ tab @ ld rB @ tab @
        ld (tB - rB) @ tab @ ld (rA - tB) @ tab @ ld (tx_sequence gB + 1) @ tab @ show_int sidA @ tab @ ld tB @ tab @
        ld 0 @ tab @ ld rA @ tab @ ld ((rB - b) + (tB - rB) + (rA - tB)) @ ''\<newline>'']"
proof -
  let ?m = "\<lparr>mq_sequence = a, mq_txTime = b, mq_rxTime = rB\<rparr>"
  have gB': "msgq gB' = [?m]" "prev_rx_sequence gB' = prev_rx_sequence gB" "tx_sequence gB' = tx_sequence gB"
    using assms(1-4)
    by (auto simp: subStoreDataReceived_def is_empty_variant_def Let_def sub_finish_def split: if_splits)
  have "forwardable ?m gB'"
    using assms(5) gB'(2) by (simp add: forwardable_def)
  from pubr_forwards [OF this, of "[]" nowB'] obtain gB''
    where fwd: "pubReturnGetDataToTransmit [Some ?m] nowB' gB' = ([a, b, rB, tx_sequence gB + 1, tB], gB'')"
    using gB'(3) assms(7) by auto
  have "\<not> is_error a"
    using assms(5) by (simp add: forwardable_def)
  then have line: "subr_line sidA a b rB sB tB rA =
      ld (rB - b) @ tab @ ld a @ tab @ show_int sidA @ tab @ ld b @ tab @ ld 0 @ tab @ ld rB @ tab @
      ld (tB - rB) @ tab @ ld (rA - tB) @ tab @ ld sB @ tab @ show_int sidA @ tab @ ld tB @ tab @
      ld 0 @ tab @ ld rA @ tab @ ld ((rB - b) + (tB - rB) + (rA - tB)) @ ''\<newline>''" for sB
    by (simp add: subr_line_def is_error_def)
  have "\<exists>fA' gA'. subReturnStoreDataReceived sidA (D_variant 5 (Some [a, b, rB, tx_sequence gB + 1, tB])) nowA (fA, gA)
      = Some (fA', gA') \<and> fp_lines fA' = fp_lines fA @ [subr_line sidA a b rB (tx_sequence gB + 1) tB rA]"
    using assms(6,8)
    by (cases "\<not> is_error a \<and> packetCount gA \<le> a")
      (auto simp: subReturnStoreDataReceived_def is_empty_variant_def fp_print_def sub_finish_def fp_close_def Let_def)
  with gB' fwd line show ?thesis by metis
qed

definition ex_ds :: ds_glob where "ex_ds = ds_init 1000 7 False"

theorem round_trip_witness:
  "\<exists>fB' gB' m d gB'' fA' gA'.
     subStoreDataReceived 2 (D_variant 2 (Some [42, 1000000000])) (Timespec 1 5) True (\<lparr>fp_open = True, fp_lines = []\<rparr>, ex_ds)
       = Some (fB', gB') \<and>
     msgq gB' = [m] \<and> pubReturnGetDataToTransmit [Some m] (Timespec 1 7) gB' = (d, gB'') \<and>
     subReturnStoreDataReceived 1 (D_variant 5 (Some d)) (Timespec 1 12) (\<lparr>fp_open = True, fp_lines = []\<rparr>, ex_ds) = Some (fA', gA') \<and>
     length (fp_lines fA') = 1"
proof -
  have "\<exists>fB' gB'. subStoreDataReceived 2 (D_variant 2 (Some [42, 1000000000])) (Timespec 1 5) True
      (\<lparr>fp_open = True, fp_lines = []\<rparr>, ex_ds) = Some (fB', gB')"
    by (simp add: subStoreDataReceived_def is_empty_variant_def Let_def)
  then obtain fB' gB' where st: "subStoreDataReceived 2 (D_variant 2 (Some [42, 1000000000])) (Timespec 1 5) True
      (\<lparr>fp_open = True, fp_lines = []\<rparr>, ex_ds) = Some (fB', gB')" by blast
  from round_trip [OF st _ _ refl _ _ refl refl, of "\<lparr>fp_open = True, fp_lines = []\<rparr>" "Timespec 1 7" 1 "Timespec 1 12" ex_ds] st
  show ?thesis
    by (fastforce simp: ex_ds_def ds_init_def forwardable_def is_error_def as_nanoseconds_def ERROR_DUPLICATE_def
        ERROR_MSGQ_COPY_def ERROR_NOTHING_TO_FORWARD_def)
qed

text \<open>
  Duplicates are not forwarded twice. When the same message is found again in the next cycle,
  the packet is marked as a duplicate, the sequence number of the returning publisher is not
  advanced, and subscriber A logs the duplicate instead of a measurement.
\<close>

theorem duplicate_marked:
  assumes "forwardable m g" and "mq_sequence m > 10" and "fp_open f"
    and "pubReturnGetDataToTransmit [Some m] t1 g = (d1, g1)" and "pubReturnGetDataToTransmit [Some m] t2 g1 = (d2, g2)"
  shows "tx_sequence g2 = tx_sequence g1 \<and>
    (\<exists>f'. subReturnStoreDataReceived sid (D_variant 5 (Some d2)) now (f, h) = Some (f', h) \<and>
       fp_lines f' = fp_lines f @ [''ERROR_DUPLICATE_SKIPPED\<newline>''])"
proof -
  have g1: "prev_rx_sequence g1 = mq_sequence m"
    using pubr_forwards [OF assms(1), of "[]" t1] assms(4) by auto
  have "mq_rxTime m \<notin> {888, 999}"
    using assms(1) by (simp add: forwardable_def)
  from pubr_duplicate [OF g1 [symmetric] assms(2) this, of "[]" t2] assms(5)
  have d2: "d2 = [ERROR_DUPLICATE, ERROR_DUPLICATE, ERROR_DUPLICATE, tx_sequence g1, as_nanoseconds t2]"
    and "tx_sequence g2 = tx_sequence g1"
    by auto
  then show ?thesis
    using assms(3)
    by (simp add: subReturnStoreDataReceived_def is_empty_variant_def fp_print_def subr_line_def is_error_def Let_def)
qed

theorem duplicate_marked_witness:
  "\<exists>d1 g1 d2 g2. pubReturnGetDataToTransmit [Some \<lparr>mq_sequence = 42, mq_txTime = 5, mq_rxTime = 6\<rparr>] (Timespec 1 0) ex_ds = (d1, g1) \<and>
     pubReturnGetDataToTransmit [Some \<lparr>mq_sequence = 42, mq_txTime = 5, mq_rxTime = 6\<rparr>] (Timespec 2 0) g1 = (d2, g2) \<and>
     tx_sequence g2 = tx_sequence g1"
proof -
  let ?m = "\<lparr>mq_sequence = 42, mq_txTime = 5, mq_rxTime = 6\<rparr> :: msgq_buf"
  obtain d1 g1 d2 g2 where r: "pubReturnGetDataToTransmit [Some ?m] (Timespec 1 0) ex_ds = (d1, g1)"
    "pubReturnGetDataToTransmit [Some ?m] (Timespec 2 0) g1 = (d2, g2)"
    by (metis surj_pair)
  have "tx_sequence g2 = tx_sequence g1 \<and>
    (\<exists>f'. subReturnStoreDataReceived 1 (D_variant 5 (Some d2)) (Timespec 3 0) (\<lparr>fp_open = True, fp_lines = []\<rparr>, ex_ds) = Some (f', ex_ds) \<and>
       fp_lines f' = fp_lines \<lparr>fp_open = True, fp_lines = []\<rparr> @ [''ERROR_DUPLICATE_SKIPPED\<newline>''])"
    by (rule duplicate_marked [OF _ _ _ r])
      (simp_all add: forwardable_def ex_ds_def ds_init_def is_error_def ERROR_DUPLICATE_def ERROR_MSGQ_COPY_def
        ERROR_NOTHING_TO_FORWARD_def)
  with r show ?thesis by blast
qed

text \<open>
  With a packet count of 999, which the configuration allows, an array of length 0 ends the
  measurement: the initial value 999 of the local buffer is compared with the count although
  nothing was received.
\<close>

theorem empty_array_stops:
  assumes "packetCount g = 999" and "v \<noteq> None" and "fp_open f"
  shows "subStoreDataReceived sid (D_variant 0 v) now ok (f, g) = Some (f\<lparr>fp_open := False\<rparr>, g\<lparr>g_running := False\<rparr>)"
  using assms by (simp add: subStoreDataReceived_def is_empty_variant_def sub_finish_def fp_close_def)

theorem empty_array_stops_witness:
  "subStoreDataReceived 2 (D_variant 0 (Some [])) (Timespec 1 5) True (\<lparr>fp_open = True, fp_lines = []\<rparr>, ds_init 999 7 False)
     = Some (\<lparr>fp_open = True, fp_lines = []\<rparr>\<lparr>fp_open := False\<rparr>, (ds_init 999 7 False)\<lparr>g_running := False\<rparr>)"
  by (rule empty_array_stops) (simp_all add: ds_init_def)

text \<open>
  A complete one-way measurement. The packets of a publisher that runs until it stops itself,
  received in order, leave exactly one line each in the subscriber's file: sequence numbers -1, 0,
  \<dots> up to the configured count, each with its own send and receive time and their difference.
  The subscriber then closes its file and stops its server.
\<close>

theorem one_way_measurement:
  assumes "1 \<le> unat count" and "unat count \<le> 10000000"
    and "length ts = unat count + 2" and "length rs = unat count + 2" and "q < 0"
  shows "\<exists>f g. sub_calls sid (zip (fst (pub_calls ts (ds_init count q True))) rs)
             (\<lparr>fp_open = True, fp_lines = []\<rparr>, ds_init count q True) = Some (f, g) \<and>
           fp_lines f = map (\<lambda>k. sub_line sid (word_of_int (int k - 1)) (as_nanoseconds (ts ! k)) (as_nanoseconds (rs ! k)))
                          [0..<unat count + 2] \<and>
           \<not> fp_open f \<and> \<not> g_running g"
proof -
  let ?n = "unat count + 1" and ?f = "\<lparr>fp_open = True, fp_lines = []\<rparr>" and ?g = "ds_init count q True"
  let ?p = "\<lambda>k. (word_of_int (int k - 1) :: u64, as_nanoseconds (ts ! k), rs ! k)"
  let ?arr = "\<lambda>(a :: u64, b :: u64, t :: timespec). ([a, b], t)"
  have len: "Suc ?n = unat count + 2" by simp
  have sent: "zip (fst (pub_calls ts ?g)) rs = map ?arr (map ?p [0..<?n]) @ [?arr (?p ?n)]"
    using assms(3,4) unfolding pub_calls_sent
    by (intro nth_equalityI) (auto simp: ds_init_def nth_append less_Suc_eq simp del: upt_Suc)
  have seq: "(word_of_int (int k - 1) :: u64) = count \<longleftrightarrow> k = ?n" if "k \<le> ?n" for k
    using that assms(2) by (intro number_is_count) simp_all
  have "\<forall>p \<in> set (map ?p [0..<?n]). fst p \<noteq> packetCount ?g"
    using seq by (auto simp: ds_init_def)
  from sub_calls_log [OF _ _ this, of ?f sid] obtain g1 where
    g1: "sub_calls sid (map ?arr (map ?p [0..<?n])) (?f, ?g) =
      Some (?f\<lparr>fp_lines := map (\<lambda>(a, b, t). sub_line sid a b (as_nanoseconds t)) (map ?p [0..<?n])\<rparr>, g1)"
    "g_msqid g1 < 0" "packetCount g1 = count"
    using assms(5) by (auto simp: ds_init_def)
  have two: "(of_nat (Suc (Suc 0)) :: u64) = 2" by simp
  show ?thesis
    unfolding sent sub_calls_append g1(1)
    using subStore_logs [OF _ g1(2), of "?f\<lparr>fp_lines := map (\<lambda>(a, b, t). sub_line sid a b (as_nanoseconds t)) (map ?p [0..<?n])\<rparr>"
        sid "word_of_int (int ?n - 1)" "as_nanoseconds (ts ! ?n)" "rs ! ?n"] seq [of ?n] g1(3)
    by (simp add: two comp_def del: of_nat_add of_nat_Suc)
qed

theorem one_way_measurement_witness:
  "\<exists>f g. sub_calls 3 (zip (fst (pub_calls [Timespec 1 0, Timespec 2 0, Timespec 3 0] (ds_init 1 (- 1) True)))
             [Timespec 1 9, Timespec 2 8, Timespec 3 7]) (\<lparr>fp_open = True, fp_lines = []\<rparr>, ds_init 1 (- 1) True) = Some (f, g) \<and>
     length (fp_lines f) = 3 \<and> \<not> fp_open f"
  using one_way_measurement [of 1 "[Timespec 1 0, Timespec 2 0, Timespec 3 0]" "[Timespec 1 9, Timespec 2 8, Timespec 3 7]" "- 1" 3]
  by fastforce

text \<open>
  The first number the publisher sends, -1, ends the round trip: when that packet comes back, the
  subscriber compares it as an unsigned number with the count, closes its file and stops.
\<close>

theorem first_return_stops:
  assumes "fst (pubGetDataToTransmit t0 (ds_init count q r)) = [a, b]" and "fp_open f"
  shows "\<exists>f'. subReturnStoreDataReceived sid (D_variant 5 (Some [a, b, c, d, e])) now (f, g) = Some (f', g\<lparr>g_running := False\<rparr>) \<and>
           \<not> fp_open f'"
proof -
  have a: "a = - 1"
    using assms(1) by (simp add: pubGetDataToTransmit_def ds_init_def Let_def)
  have "packetCount g \<le> - 1" by simp
  moreover have "\<not> is_error (- 1)"
    by (simp add: is_error_def ERROR_DUPLICATE_def ERROR_MSGQ_COPY_def ERROR_NOTHING_TO_FORWARD_def)
  ultimately show ?thesis
    using assms(2) a
    by (auto simp: subReturnStoreDataReceived_def is_empty_variant_def sub_finish_def fp_close_def fp_print_def Let_def)
qed

end
