(* ===== verification/Opcua_Roundtrip.thy ===== *)
theory Opcua_Roundtrip
  imports Opcua_Datasource "HOL-Library.Sublist"
begin

text \<open>
  The B side of the round trip as two threads: the subscriber thread runs
  \<^verbatim>\<open>subStoreDataReceived()\<close>, the returning publisher thread \<^verbatim>\<open>pubReturnGetDataToTransmit()\<close>, and
  they meet in the message queue and the two flags. A call of the publisher makes up to 15
  attempts to receive a message and sleeps in between, so receptions happen between its attempts;
  each attempt is a step of its own here, and so is the rest of the call.

  \<open>rt_rx\<close>, \<open>rt_enq\<close> and \<open>rt_ret\<close> record what was received, what was put into the queue and what was
  sent back.
\<close>

section \<open>The machine\<close>

datatype rt_pc = RT_idle | RT_try nat | RT_got "msgq_buf option"

record rt_st =
  rt_glob :: ds_glob
  rt_file :: sub_file
  rt_pc :: rt_pc
  rt_rx :: "(u64 \<times> u64) list"
  rt_enq :: "msgq_buf list"
  rt_ret :: "u64 list list"

text \<open>The sequence number and the send time of a packet that carries data.\<close>

definition rx_of :: "ua_data \<Rightarrow> (u64 \<times> u64) list" where
  "rx_of data =
     (case data of
        D_variant len (Some (a # b # _)) \<Rightarrow> if len = - 1 \<or> len > 0 then [(a, b)] else []
      | _ \<Rightarrow> [])"

inductive rt_step :: "int \<Rightarrow> rt_st \<Rightarrow> rt_st \<Rightarrow> bool" for sid where
  receive: "g_running (rt_glob s) \<Longrightarrow>
    subStoreDataReceived sid data now ok (rt_file s, rt_glob s) = Some (f, g) \<Longrightarrow>
    rt_step sid s (s\<lparr>rt_file := f, rt_glob := g, rt_rx := rt_rx s @ rx_of data,
                    rt_enq := rt_enq s @ drop (length (msgq (rt_glob s))) (msgq g)\<rparr>)"
| wake: "rt_pc s = RT_idle \<Longrightarrow> g_running (rt_glob s) \<Longrightarrow> g_pubReturn (rt_glob s) \<Longrightarrow>
    rt_step sid s (s\<lparr>rt_pc := RT_try 15\<rparr>)"
| hit: "rt_pc s = RT_try (Suc n) \<Longrightarrow> msgq (rt_glob s) = m # ms \<Longrightarrow>
    rt_step sid s (s\<lparr>rt_pc := RT_got (Some m), rt_glob := (rt_glob s)\<lparr>msgq := ms\<rparr>\<rparr>)"
| miss: "rt_pc s = RT_try (Suc n) \<Longrightarrow> rt_step sid s (s\<lparr>rt_pc := RT_try n\<rparr>)"
| give_up: "rt_pc s = RT_try 0 \<Longrightarrow> rt_step sid s (s\<lparr>rt_pc := RT_got None\<rparr>)"
| send: "rt_pc s = RT_got mo \<Longrightarrow> pubr_finish (case mo of Some m \<Rightarrow> m | None \<Rightarrow> msgq_none) now (rt_glob s) = (d, g) \<Longrightarrow>
    rt_step sid s (s\<lparr>rt_pc := RT_idle, rt_glob := g, rt_ret := rt_ret s @ [d]\<rparr>)"

inductive_cases rt_stepE: "rt_step sid s s'"

definition rt_init :: "u64 \<Rightarrow> int \<Rightarrow> rt_st" where
  "rt_init count q =
     \<lparr>rt_glob = ds_init count q False, rt_file = \<lparr>fp_open = True, fp_lines = []\<rparr>, rt_pc = RT_idle,
      rt_rx = [], rt_enq = [], rt_ret = []\<rparr>"

section \<open>Lemmas\<close>

lemma subStore_queue:
  assumes "subStoreDataReceived sid data now ok (f, g) = Some (f', g')"
  shows "\<exists>new. msgq g' = msgq g @ new \<and> subseq (map (\<lambda>m. (mq_sequence m, mq_txTime m)) new) (rx_of data)"
proof (cases data)
  case D_null
  with assms show ?thesis
    by (simp add: subStoreDataReceived_def)
next
  case (D_variant len v)
  show ?thesis
  proof (cases "\<not> is_empty_variant len v \<and> (len = - 1 \<or> len > 0)")
    case False
    with assms D_variant have "msgq g' = msgq g"
      by (auto simp: subStoreDataReceived_def sub_finish_def split: if_splits)
    then show ?thesis by (intro exI [of _ "[]"]) simp
  next
    case True
    then obtain a b r where v: "v = Some (a # b # r)"
      using assms D_variant by (auto simp: subStoreDataReceived_def split: option.splits list.splits)
    let ?m = "\<lparr>mq_sequence = a, mq_txTime = b, mq_rxTime = as_nanoseconds now\<rparr>"
    have "msgq g' = msgq g @ (if g_msqid g \<ge> 0 \<and> ok then [?m] else [])"
    proof -
      have "g' = snd (the (subStoreDataReceived sid data now ok (f, g)))"
        using assms by simp
      then show ?thesis
        using D_variant True v by (simp add: subStoreDataReceived_def sub_finish_def Let_def)
    qed
    moreover have "rx_of data = [(a, b)]"
      using True v D_variant by (auto simp: rx_of_def)
    ultimately show ?thesis by auto
  qed
qed

text \<open>What the returning publisher sends is the message as it was, or marked as an error.\<close>

lemma pubr_classify_out:
  "msgq (snd (pubr_classify m g)) = msgq g"
  "fst (pubr_classify m g) \<in> {(mq_sequence m, mq_txTime m, mq_rxTime m), (ERROR_NOTHING_TO_FORWARD, ERROR_NOTHING_TO_FORWARD,
     ERROR_NOTHING_TO_FORWARD), (ERROR_MSGQ_COPY, ERROR_MSGQ_COPY, ERROR_MSGQ_COPY), (ERROR_DUPLICATE, ERROR_DUPLICATE, ERROR_DUPLICATE)}"
  by (simp_all add: pubr_classify_def Let_def)

lemma pubr_finish_out:
  "fst (pubr_finish m now g) ! 0 = fst (fst (pubr_classify m g))"
  "fst (pubr_finish m now g) ! 1 = fst (snd (fst (pubr_classify m g)))"
  "msgq (snd (pubr_finish m now g)) = msgq (snd (pubr_classify m g))"
  by (simp_all add: pubr_finish_def split_beta Let_def)

lemma pubr_finish_sent:
  assumes "pubr_finish m now g = (d, g')"
  shows "msgq g' = msgq g" and "\<not> is_error (d ! 0) \<Longrightarrow> (d ! 0, d ! 1) = (mq_sequence m, mq_txTime m)"
  using pubr_finish_out [of m now g] pubr_classify_out [of m g] unfolding assms is_error_def
  by auto

lemma pubr_finish_none:
  assumes "pubr_finish msgq_none now g = (d, g')"
  shows "is_error (d ! 0)"
proof -
  have "fst (pubr_classify msgq_none g) = (ERROR_MSGQ_COPY, ERROR_MSGQ_COPY, ERROR_MSGQ_COPY)"
    by (simp add: pubr_classify_def msgq_none_def)
  then show ?thesis
    using pubr_finish_out(1) [of msgq_none now g] unfolding assms by (simp add: is_error_def)
qed

definition returned :: "u64 list list \<Rightarrow> (u64 \<times> u64) list" where
  "returned ds = map (\<lambda>d. (d ! 0, d ! 1)) (filter (\<lambda>d. \<not> is_error (d ! 0)) ds)"

definition in_hand :: "rt_pc \<Rightarrow> msgq_buf list" where
  "in_hand pc = (case pc of RT_got (Some m) \<Rightarrow> [m] | _ \<Rightarrow> [])"

text \<open>
  The queue is a channel: what was put in is what was taken out, followed by the message in the
  hands of the publisher and by the queue; what was sent back comes from what was taken out.
\<close>

definition channel :: "rt_st \<Rightarrow> bool" where
  "channel s \<longleftrightarrow>
     subseq (map (\<lambda>m. (mq_sequence m, mq_txTime m)) (rt_enq s)) (rt_rx s) \<and>
     (\<exists>taken. rt_enq s = taken @ in_hand (rt_pc s) @ msgq (rt_glob s) \<and>
        subseq (returned (rt_ret s)) (map (\<lambda>m. (mq_sequence m, mq_txTime m)) taken))"

lemma channel_send:
  assumes "rt_pc s = RT_got mo" and "pubr_finish (case mo of Some m \<Rightarrow> m | None \<Rightarrow> msgq_none) now (rt_glob s) = (d, g)"
    and "channel s"
  shows "channel (s\<lparr>rt_pc := RT_idle, rt_glob := g, rt_ret := rt_ret s @ [d]\<rparr>)"
proof -
  let ?pair = "\<lambda>m. (mq_sequence m, mq_txTime m)"
  obtain taken where enq: "rt_enq s = taken @ in_hand (rt_pc s) @ msgq (rt_glob s)"
    and sub: "subseq (returned (rt_ret s)) (map ?pair taken)"
    using assms(3) by (auto simp: channel_def)
  have "subseq (returned [d]) (map ?pair (in_hand (rt_pc s)))"
  proof (cases mo)
    case None
    with assms(2) show ?thesis by (simp add: returned_def pubr_finish_none)
  next
    case (Some m)
    with assms(1,2) show ?thesis
      using pubr_finish_sent(2) [of m now "rt_glob s" d g] by (auto simp: returned_def in_hand_def)
  qed
  then have "subseq (returned (rt_ret s @ [d])) (map ?pair (taken @ in_hand (rt_pc s)))"
    using sub by (simp add: returned_def list_emb_append_mono)
  moreover have "msgq g = msgq (rt_glob s)"
    using assms(2) by (rule pubr_finish_sent)
  ultimately show ?thesis
    using assms(3) enq by (auto simp: channel_def in_hand_def)
qed

interpretation rt_channel: step_invariant "rt_step sid" channel for sid
proof
  fix s s' assume step: "rt_step sid s s'" and inv: "channel s"
  from step show "channel s'"
  proof cases
    case (receive data now ok f g)
    obtain new where "msgq g = msgq (rt_glob s) @ new"
      and "subseq (map (\<lambda>m. (mq_sequence m, mq_txTime m)) new) (rx_of data)"
      using subStore_queue [OF receive(3)] by blast
    with inv receive(1) show ?thesis
      by (auto simp: channel_def list_emb_append_mono)
  next
    case (send mo now d g)
    with inv show ?thesis by (simp add: channel_send)
  qed (use inv in \<open>auto simp: channel_def in_hand_def\<close>)
qed

lemma channel_start: "channel (rt_init count q)"
  by (simp add: channel_def rt_init_def returned_def in_hand_def ds_init_def)

lemma channel_returned:
  assumes "channel s"
  shows "subseq (returned (rt_ret s)) (rt_rx s)"
proof -
  obtain taken where
    "subseq (map (\<lambda>m. (mq_sequence m, mq_txTime m)) (taken @ in_hand (rt_pc s) @ msgq (rt_glob s))) (rt_rx s)"
    and ret: "subseq (returned (rt_ret s)) (map (\<lambda>m. (mq_sequence m, mq_txTime m)) taken)"
    using assms by (auto simp: channel_def)
  moreover have "subseq (returned (rt_ret s))
      (map (\<lambda>m. (mq_sequence m, mq_txTime m)) (taken @ in_hand (rt_pc s) @ msgq (rt_glob s)))"
    using ret by (simp add: list_emb_prefix)
  ultimately show ?thesis by (blast intro: subseq_order.order_trans)
qed

section \<open>One packet there and back\<close>

text \<open>A packet that is received, taken from the queue at the first attempt and sent back, step by step.\<close>

lemma rt_one_packet:
  assumes "m = \<lparr>mq_sequence = a, mq_txTime = b, mq_rxTime = as_nanoseconds t0\<rparr>"
    and "forwardable m (ds_init 1000 7 False)" and "a \<noteq> 1000"
  shows "\<exists>b1 b2 b3 b4 d. rt_step sid (rt_init 1000 7) b1 \<and> rt_step sid b1 b2 \<and> rt_step sid b2 b3 \<and> rt_step sid b3 b4 \<and>
    list_all (\<lambda>x. rt_rx x = [(a, b)]) [b1, b2, b3, b4] \<and> list_all (\<lambda>x. rt_ret x = []) [b1, b2, b3] \<and>
    rt_ret b4 = [d] \<and> d ! 0 = a \<and> d ! 1 = b"
proof -
  define g1 where "g1 = (ds_init 1000 7 False)\<lparr>g_pubReturn := True, msgq := [m]\<rparr>"
  define b1 where "b1 = (rt_init 1000 7)\<lparr>rt_file := \<lparr>fp_open = True, fp_lines = [sub_line sid a b (as_nanoseconds t0)]\<rparr>,
      rt_glob := g1, rt_rx := [(a, b)], rt_enq := [m]\<rparr>"
  have "subStoreDataReceived sid (D_variant 2 (Some [a, b])) t0 True (rt_file (rt_init 1000 7), rt_glob (rt_init 1000 7)) =
      Some (\<lparr>fp_open = True, fp_lines = [sub_line sid a b (as_nanoseconds t0)]\<rparr>, g1)"
    using assms(1,3) by (simp add: subStoreDataReceived_def is_empty_variant_def rt_init_def ds_init_def g1_def fp_print_def Let_def)
  from receive [OF _ this] have st1: "rt_step sid (rt_init 1000 7) b1"
    by (simp add: b1_def rt_init_def rx_of_def g1_def ds_init_def)
  define b2 where "b2 = b1\<lparr>rt_pc := RT_try (Suc 14)\<rparr>"
  have st2: "rt_step sid b1 b2"
    using wake [of b1 sid] by (simp add: b1_def b2_def rt_init_def g1_def ds_init_def)
  define b3 where "b3 = b2\<lparr>rt_pc := RT_got (Some m), rt_glob := g1\<lparr>msgq := []\<rparr>\<rparr>"
  have st3: "rt_step sid b2 b3"
    using hit [of b2 14 m "[]" sid] by (simp add: b1_def b2_def b3_def g1_def)
  obtain d g4 where fin: "pubr_finish m (Timespec 2 0) (g1\<lparr>msgq := []\<rparr>) = (d, g4)" by fastforce
  define b4 where "b4 = b3\<lparr>rt_pc := RT_idle, rt_glob := g4, rt_ret := rt_ret b3 @ [d]\<rparr>"
  have st4: "rt_step sid b3 b4"
    unfolding b4_def using fin by (intro send [of b3 "Some m" "Timespec 2 0"]) (simp_all add: b3_def)
  have "fst (pubr_classify m (g1\<lparr>msgq := []\<rparr>)) = (a, b, as_nanoseconds t0)"
    using assms(1,2) by (auto simp: pubr_classify_def forwardable_def g1_def ds_init_def Let_def)
  then have "d ! 0 = a" "d ! 1 = b"
    using pubr_finish_out(1,2) [of m "Timespec 2 0" "g1\<lparr>msgq := []\<rparr>"] fin by simp_all
  with st1 st2 st3 st4 show ?thesis
    by (intro exI [of _ b1] exI [of _ b2] exI [of _ b3] exI [of _ b4] exI [of _ d])
      (simp add: b4_def b3_def b2_def b1_def rt_init_def)
qed

section \<open>Properties\<close>

text \<open>
  The round trip is a reliable channel up to losses. However the two threads of side B are
  interleaved, the packets sent back that are not marked as errors carry the sequence number and
  send time of packets that were received, in the order in which they were received, and no
  packet is sent back twice; without a message the packet is marked.
\<close>

theorem returned_in_order:
  assumes "(rt_step sid)\<^sup>*\<^sup>* (rt_init count q) s"
  shows "subseq (returned (rt_ret s)) (rt_rx s)"
  using rt_channel.inv_reach [OF assms channel_start] by (rule channel_returned)

theorem returned_in_order_witness:
  "\<exists>s. (rt_step 2)\<^sup>*\<^sup>* (rt_init 1000 7) s \<and> returned (rt_ret s) = [(42, 5)] \<and> subseq [(42, 5)] (rt_rx s)"
proof -
  have "forwardable \<lparr>mq_sequence = 42, mq_txTime = 5, mq_rxTime = as_nanoseconds (Timespec 1 0)\<rparr> (ds_init 1000 7 False)"
    by (simp add: forwardable_def ds_init_def as_nanoseconds_def is_error_def ERROR_DUPLICATE_def ERROR_MSGQ_COPY_def
        ERROR_NOTHING_TO_FORWARD_def)
  from rt_one_packet [OF refl this, of 2] obtain b1 b2 b3 b4 d
    where st: "rt_step 2 (rt_init 1000 7) b1" "rt_step 2 b1 b2" "rt_step 2 b2 b3" "rt_step 2 b3 b4"
      and d: "rt_ret b4 = [d]" "d ! 0 = 42" "d ! 1 = 5" by auto
  have reach: "(rt_step 2)\<^sup>*\<^sup>* (rt_init 1000 7) b4"
    using st by (meson converse_rtranclp_into_rtranclp rtranclp.rtrancl_refl)
  have "returned (rt_ret b4) = [(42, 5)]"
    using d by (simp add: returned_def is_error_def ERROR_DUPLICATE_def ERROR_MSGQ_COPY_def ERROR_NOTHING_TO_FORWARD_def)
  with returned_in_order [OF reach] reach show ?thesis by auto
qed

end
