(* ===== verification/Opcua_Custom.thy ===== *)
theory Opcua_Custom
  imports Opcua_Datasource "HOL-Library.Signed_Division" "HOL-Library.While_Combinator"
begin

text \<open>
  \<^verbatim>\<open>src/opcua-tsn/opcua_custom.c\<close>: the threads that replace the timers of the OPC UA library. A
  publisher thread sleeps until shortly before each transmission time and lets the library send; a
  subscriber thread sleeps until each reception time and lets it receive. The three functions the
  library calls to register a periodic callback start these threads.

  The callbacks of the library are events: a publisher thread leaves the launch time that is in
  the transport settings at each call, a subscriber thread the number of its calls. What a thread
  reads of \<^verbatim>\<open>g_running\<close> and \<^verbatim>\<open>g_roundtrip_pubReturn\<close> in an iteration is the input of that
  iteration. \<open>None\<close> is an access outside the array of publishers or subscribers.
\<close>

definition ONESEC_IN_NSEC :: int where "ONESEC_IN_NSEC = 1000000000"

definition PUB_THREAD_PRIORITY :: int where "PUB_THREAD_PRIORITY = 91"
definition SUB_THREAD_PRIORITY :: int where "SUB_THREAD_PRIORITY = 90"
definition MAX_OPCUA_THREAD :: nat where "MAX_OPCUA_THREAD = 6"

section \<open>normalize\<close>

function normalize_up :: "timespec \<Rightarrow> timespec" where
  "normalize_up t =
     (if tv_nsec t > ONESEC_IN_NSEC - 1 then normalize_up (Timespec (tv_sec t + 1) (tv_nsec t - ONESEC_IN_NSEC))
      else t)"
  by pat_completeness auto
termination
  by (relation "measure (\<lambda>t. nat (tv_nsec t))") (auto simp: ONESEC_IN_NSEC_def)

function normalize_down :: "timespec \<Rightarrow> timespec" where
  "normalize_down t =
     (if tv_nsec t < 0 then normalize_down (Timespec (tv_sec t - 1) (tv_nsec t + ONESEC_IN_NSEC)) else t)"
  by pat_completeness auto
termination
  by (relation "measure (\<lambda>t. nat (- tv_nsec t))") (auto simp: ONESEC_IN_NSEC_def)

declare normalize_up.simps [simp del] normalize_down.simps [simp del]

definition normalize :: "timespec \<Rightarrow> timespec" where
  "normalize t = normalize_down (normalize_up t)"

section \<open>Starting a thread\<close>

text \<open>
  The answers of \<^verbatim>\<open>pthread_setschedparam\<close>, \<^verbatim>\<open>pthread_setaffinity_np\<close> and \<^verbatim>\<open>pthread_create\<close>, and
  the identifier in \<^verbatim>\<open>threadID\<close> after the last. Priority and core are set for the calling thread
  and inherited by the new one.
\<close>

record thread_answers =
  ta_sched :: int
  ta_affinity :: int
  ta_create :: int
  ta_id :: int

datatype thread_kind = Pub_thread | Sub_thread

record thread_desc =
  td_kind :: thread_kind
  td_index :: nat
  td_prio :: int
  td_cpu :: int
  td_id :: int

text \<open>\<open>Inl\<close> is \<^verbatim>\<open>exit\<close>; otherwise the identifier, and the thread that was started, if one was.\<close>

definition threadCreation ::
  "int \<Rightarrow> int \<Rightarrow> thread_kind \<Rightarrow> nat \<Rightarrow> thread_answers \<Rightarrow> int + (int \<times> thread_desc option)" where
  "threadCreation threadPriority coreAffinity thread data_index a =
     (if ta_sched a \<noteq> 0 then Inl 1
      else if ta_affinity a \<noteq> 0 then Inl 1
      else Inr (ta_id a,
        if ta_create a \<noteq> 0 then None
        else Some \<lparr>td_kind = thread, td_index = data_index, td_prio = threadPriority, td_cpu = coreAffinity,
                   td_id = ta_id a\<rparr>))"

section \<open>The publisher thread\<close>

definition start_second :: "int \<Rightarrow> int" where
  "start_second sec = ((sec + 9) sdiv 10) * 10"

record pub_in =
  pi_running :: bool
  pi_return :: bool

record pub_st =
  pt_tx :: u64
  pt_txtime_enabled :: bool
  pt_transmission_time :: u64
  pt_blank :: i32
  pt_wakes :: "timespec list"
  pt_published :: "u64 list"
  pt_freed :: bool

definition pub_body :: "int \<Rightarrow> u64 \<Rightarrow> pub_in \<Rightarrow> pub_st \<Rightarrow> (unit, pub_st) run" where
  "pub_body earlyOffsetNs cycleTimeNs i s =
     (if \<not> pi_running i then Done s
      else
        let s1 = s\<lparr>pt_wakes := pt_wakes s @ [ts_of_u64 (pt_tx s - word_of_int earlyOffsetNs)]\<rparr>;
            s2 = (if \<not> pi_return i then s1\<lparr>pt_blank := pt_blank s1 + 1\<rparr>
                  else s1\<lparr>pt_published := pt_published s1 @ [pt_transmission_time s1]\<rparr>);
            s3 = s2\<lparr>pt_tx := pt_tx s2 + cycleTimeNs\<rparr>
        in Running (s3\<lparr>pt_transmission_time := pt_tx s3\<rparr>))"

definition pub_start :: "bool \<Rightarrow> server_data \<Rightarrow> publisher_data \<Rightarrow> timespec \<Rightarrow> pub_st" where
  "pub_start xdptbs sd p temp_t =
     (let t1 = word_of_int (start_second (tv_sec temp_t)) + word_of_int (pd_publishDelaySec p);
          t2 = t1 * word_of_int ONESEC_IN_NSEC + word_of_int (pd_publishOffsetNs p)
      in \<lparr>pt_tx = t2, pt_txtime_enabled = (xdptbs \<or> \<not> s_useXDP sd), pt_transmission_time = t2, pt_blank = 0,
          pt_wakes = [], pt_published = [], pt_freed = False\<rparr>)"

definition pub_thread ::
  "bool \<Rightarrow> server_data \<Rightarrow> nat \<Rightarrow> timespec \<Rightarrow> pub_in list \<Rightarrow> (unit, pub_st) run option" where
  "pub_thread xdptbs sd ind temp_t ins =
     (case s_pubData sd of
        None \<Rightarrow> None
      | Some ps \<Rightarrow>
          if length ps \<le> ind then None
          else
            (case iterate (pub_body (pd_earlyOffsetNs (ps ! ind)) (word_of_int (s_cycleTimeNs sd))) ins
                    (pub_start xdptbs sd (ps ! ind) temp_t) of
               Done s \<Rightarrow> Some (Done (s\<lparr>pt_freed := True\<rparr>))
             | r \<Rightarrow> Some r))"

section \<open>The subscriber thread\<close>

record sub_st =
  st_next :: timespec
  st_wakes :: "timespec list"
  st_calls :: nat
  st_freed :: bool

text \<open>\<^verbatim>\<open>tv_nsec += cycleTimeNs\<close> is an unsigned addition, stored in a \<^verbatim>\<open>long\<close>.\<close>

definition sub_body :: "u64 \<Rightarrow> bool \<Rightarrow> sub_st \<Rightarrow> (unit, sub_st) run" where
  "sub_body cycleTimeNs running s =
     (if \<not> running then Done s
      else
        let s1 = s\<lparr>st_wakes := st_wakes s @ [st_next s], st_calls := st_calls s + 1\<rparr>;
            nsec = sint (word_of_int (tv_nsec (st_next s1)) + cycleTimeNs)
        in Running (s1\<lparr>st_next := normalize (Timespec (tv_sec (st_next s1)) nsec)\<rparr>))"

definition sub_start :: "subscriber_data \<Rightarrow> timespec \<Rightarrow> sub_st" where
  "sub_start d now =
     \<lparr>st_next = normalize (Timespec (start_second (tv_sec now) + 3) (uint (word_of_int (sd_offsetNs d) :: u32))),
      st_wakes = [], st_calls = 0, st_freed = False\<rparr>"

definition sub_thread ::
  "server_data \<Rightarrow> nat \<Rightarrow> timespec \<Rightarrow> bool list \<Rightarrow> (unit, sub_st) run option" where
  "sub_thread sd ind now ins =
     (case s_subData sd of
        None \<Rightarrow> None
      | Some ds \<Rightarrow>
          if length ds \<le> ind then None
          else
            (case iterate (sub_body (word_of_int (s_cycleTimeNs sd))) ins (sub_start (ds ! ind) now) of
               Done s \<Rightarrow> Some (Done (s\<lparr>st_freed := True\<rparr>))
             | r \<Rightarrow> Some r))"

section \<open>Registering a callback\<close>

record thr_glob =
  g_thread :: "int list"
  g_threadRun :: u16
  g_indexPub :: u16
  g_indexSub :: u16
  started :: "thread_desc list"

definition thr_init :: thr_glob where
  "thr_init = \<lparr>g_thread = replicate MAX_OPCUA_THREAD 0, g_threadRun = 0, g_indexPub = 0, g_indexSub = 0, started = []\<rparr>"

datatype arc_res = ARC_good thr_glob | ARC_bad thr_glob | ARC_exit int | ARC_undefined

text \<open>The identifier stored at \<^verbatim>\<open>g_thread[g_threadRun]\<close>; a place outside the array is undefined.\<close>

definition store_thread :: "int \<times> thread_desc option \<Rightarrow> thr_glob \<Rightarrow> thr_glob option" where
  "store_thread r g =
     (if unat (g_threadRun g) < length (g_thread g)
      then Some (g\<lparr>g_thread := (g_thread g)[unat (g_threadRun g) := fst r],
                   started := started g @ (case snd r of None \<Rightarrow> [] | Some t \<Rightarrow> [t])\<rparr>)
      else None)"

definition UA_PubSubManager_addRepeatedCallback ::
  "server_data \<Rightarrow> bool \<Rightarrow> thread_answers \<Rightarrow> bool \<Rightarrow> thr_glob \<Rightarrow> arc_res" where
  "UA_PubSubManager_addRepeatedCallback sd malloc_ok a is_writer g =
     (if \<not> malloc_ok then ARC_bad g
      else if is_writer then
        (case s_pubData sd of
           None \<Rightarrow> ARC_undefined
         | Some ps \<Rightarrow>
             if length ps \<le> unat (g_indexPub g) then ARC_undefined
             else
               (case threadCreation PUB_THREAD_PRIORITY (pd_cpuAffinity (ps ! unat (g_indexPub g))) Pub_thread
                       (unat (g_indexPub g)) a of
                  Inl e \<Rightarrow> ARC_exit e
                | Inr r \<Rightarrow>
                    (case store_thread r g of
                       None \<Rightarrow> ARC_undefined
                     | Some g1 \<Rightarrow> ARC_good (g1\<lparr>g_indexPub := g_indexPub g1 + 1, g_threadRun := g_threadRun g1 + 1\<rparr>))))
      else
        (case s_subData sd of
           None \<Rightarrow> ARC_undefined
         | Some ds \<Rightarrow>
             if length ds \<le> unat (g_indexSub g) then ARC_undefined
             else
               (case threadCreation SUB_THREAD_PRIORITY (sd_cpuAffinity (ds ! unat (g_indexSub g))) Sub_thread
                       (unat (g_indexSub g)) a of
                  Inl e \<Rightarrow> ARC_exit e
                | Inr r \<Rightarrow>
                    (case store_thread r g of
                       None \<Rightarrow> ARC_undefined
                     | Some g1 \<Rightarrow> ARC_good (g1\<lparr>g_indexSub := g_indexSub g1 + 1, g_threadRun := g_threadRun g1 + 1\<rparr>)))))"

definition UA_PubSubManager_changeRepeatedCallbackInterval :: "u64 \<Rightarrow> thr_glob \<Rightarrow> arc_res" where
  "UA_PubSubManager_changeRepeatedCallbackInterval callbackId g = ARC_good g"

definition UA_PubSubManager_removeRepeatedPubSubCallback :: "u64 \<Rightarrow> thr_glob \<Rightarrow> thr_glob" where
  "UA_PubSubManager_removeRepeatedPubSubCallback callbackId g = g"

text \<open>The callbacks the library registers one after another.\<close>

fun register_all :: "server_data \<Rightarrow> (bool \<times> thread_answers) list \<Rightarrow> thr_glob \<Rightarrow> arc_res" where
  "register_all sd [] g = ARC_good g"
| "register_all sd ((w, a) # cs) g =
     (case UA_PubSubManager_addRepeatedCallback sd True a w g of
        ARC_good g1 \<Rightarrow> register_all sd cs g1
      | r \<Rightarrow> r)"

section \<open>Lemmas\<close>

lemma normalize_up_eq:
  "normalize_up t = (if tv_nsec t \<le> ONESEC_IN_NSEC - 1 then t
     else Timespec (tv_sec t + tv_nsec t div ONESEC_IN_NSEC) (tv_nsec t mod ONESEC_IN_NSEC))"
proof (induction t rule: normalize_up.induct)
  case (1 t)
  show ?case
  proof (cases "tv_nsec t > ONESEC_IN_NSEC - 1")
    case True
    then have "normalize_up t = normalize_up (Timespec (tv_sec t + 1) (tv_nsec t - ONESEC_IN_NSEC))"
      by (subst normalize_up.simps) simp
    moreover have "(tv_nsec t - ONESEC_IN_NSEC) mod ONESEC_IN_NSEC = tv_nsec t mod ONESEC_IN_NSEC"
      and "(tv_nsec t - ONESEC_IN_NSEC) div ONESEC_IN_NSEC = tv_nsec t div ONESEC_IN_NSEC - 1"
      by (simp_all add: ONESEC_IN_NSEC_def)
    moreover have "(tv_nsec t - ONESEC_IN_NSEC) mod ONESEC_IN_NSEC = tv_nsec t - ONESEC_IN_NSEC"
      if "tv_nsec t - ONESEC_IN_NSEC \<le> ONESEC_IN_NSEC - 1"
      by (rule mod_pos_pos_trivial) (use that True in linarith)+
    moreover have "(tv_nsec t - ONESEC_IN_NSEC) div ONESEC_IN_NSEC = 0"
      if "tv_nsec t - ONESEC_IN_NSEC \<le> ONESEC_IN_NSEC - 1"
      by (rule div_pos_pos_trivial) (use that True in linarith)+
    ultimately show ?thesis
      using 1 [OF True] True by (auto split: if_splits)
  qed (simp add: normalize_up.simps)
qed

lemma normalize_down_eq:
  "normalize_down t = (if 0 \<le> tv_nsec t then t
     else Timespec (tv_sec t + tv_nsec t div ONESEC_IN_NSEC) (tv_nsec t mod ONESEC_IN_NSEC))"
proof (induction t rule: normalize_down.induct)
  case (1 t)
  show ?case
  proof (cases "tv_nsec t < 0")
    case True
    then have "normalize_down t = normalize_down (Timespec (tv_sec t - 1) (tv_nsec t + ONESEC_IN_NSEC))"
      by (subst normalize_down.simps) simp
    moreover have "(tv_nsec t + ONESEC_IN_NSEC) mod ONESEC_IN_NSEC = tv_nsec t mod ONESEC_IN_NSEC"
      and "(tv_nsec t + ONESEC_IN_NSEC) div ONESEC_IN_NSEC = tv_nsec t div ONESEC_IN_NSEC + 1"
      by (simp_all add: ONESEC_IN_NSEC_def)
    moreover have "(tv_nsec t + ONESEC_IN_NSEC) mod ONESEC_IN_NSEC = tv_nsec t + ONESEC_IN_NSEC"
      if "0 \<le> tv_nsec t + ONESEC_IN_NSEC"
      by (rule mod_pos_pos_trivial) (use that True in linarith)+
    moreover have "(tv_nsec t + ONESEC_IN_NSEC) div ONESEC_IN_NSEC = 0"
      if "0 \<le> tv_nsec t + ONESEC_IN_NSEC"
      by (rule div_pos_pos_trivial) (use that True in linarith)+
    ultimately show ?thesis
      using 1 [OF True] True by (auto split: if_splits)
  qed (simp add: normalize_down.simps)
qed

text \<open>The two functions are the loops of the source: the loop ends, in the state they return.\<close>

lemma normalize_up_while:
  "while_option (\<lambda>t. tv_nsec t > ONESEC_IN_NSEC - 1)
     (\<lambda>t. Timespec (tv_sec t + 1) (tv_nsec t - ONESEC_IN_NSEC)) t = Some (normalize_up t)"
  by (induction t rule: normalize_up.induct)
     (subst while_option_unfold, subst normalize_up.simps, simp)

lemma normalize_down_while:
  "while_option (\<lambda>t. tv_nsec t < 0)
     (\<lambda>t. Timespec (tv_sec t - 1) (tv_nsec t + ONESEC_IN_NSEC)) t = Some (normalize_down t)"
  by (induction t rule: normalize_down.induct)
     (subst while_option_unfold, subst normalize_down.simps, simp)

lemma normalize_eq:
  "normalize t = Timespec (tv_sec t + tv_nsec t div ONESEC_IN_NSEC) (tv_nsec t mod ONESEC_IN_NSEC)"
  by (cases t) (auto simp: normalize_def normalize_up_eq normalize_down_eq ONESEC_IN_NSEC_def)

lemma normalize_valid [ts_simps]: "ts_valid (normalize t)"
  by (simp add: normalize_eq ts_valid_def ONESEC_IN_NSEC_def NSEC_PER_SEC_def)

lemma ns_of_normalize [ts_simps]: "ns_of (normalize t) = ns_of t"
  by (simp add: normalize_eq ns_of_def ONESEC_IN_NSEC_def NSEC_PER_SEC_def)

lemma start_second_ceiling:
  assumes "0 \<le> sec"
  shows "10 dvd start_second sec" and "sec \<le> start_second sec" and "start_second sec < sec + 10"
  using assms by (simp_all add: start_second_def signed_divide_int_eq_divide_int)

lemma pub_body_running:
  "pub_body e c i s = Running s' \<Longrightarrow>
     pt_tx s' = pt_tx s + c \<and> pt_transmission_time s' = pt_tx s' \<and>
     pt_wakes s' = pt_wakes s @ [ts_of_u64 (pt_tx s - word_of_int e)] \<and>
     pt_published s' = pt_published s @ (if pi_return i then [pt_transmission_time s] else [])"
  by (auto simp: pub_body_def Let_def split: if_splits)

interpretation pub_cycle: cyclic_loop "pub_body e c" "\<lambda>_. True" pt_tx c pt_wakes "\<lambda>t. ts_of_u64 (t - word_of_int e)"
  for e c
  by unfold_locales (use pub_body_running in auto)

lemma pub_runs: "list_all pi_running ins \<Longrightarrow> \<exists>s'. iterate (pub_body e c) ins s = Running s'"
  by (induction ins arbitrary: s) (auto simp: pub_body_def Let_def)

text \<open>The launch times of the calls that were made: those of the iterations in which the flag was set.\<close>

lemma pub_published:
  "pt_transmission_time s = pt_tx s \<Longrightarrow> iterate (pub_body e c) ins s = Running s' \<Longrightarrow>
     pt_published s' = pt_published s @
       map (\<lambda>k. pt_tx s + of_nat k * c) (filter (\<lambda>k. pi_return (ins ! k)) [0..<length ins])"
proof (induction ins arbitrary: s)
  case Nil
  then show ?case by simp
next
  case (Cons i ins)
  then obtain t where t: "pub_body e c i s = Running t" and it: "iterate (pub_body e c) ins t = Running s'"
    by (auto split: run.splits)
  note b = pub_body_running [OF t]
  have shift: "map (\<lambda>k. pt_tx t + of_nat k * c) (filter (\<lambda>k. pi_return (ins ! k)) [0..<length ins]) =
      map (\<lambda>k. pt_tx s + of_nat k * c) (filter (\<lambda>k. pi_return ((i # ins) ! k)) (map Suc [0..<length ins]))"
    using b by (simp add: filter_map comp_def algebra_simps)
  have "pt_published s' = pt_published t @
      map (\<lambda>k. pt_tx t + of_nat k * c) (filter (\<lambda>k. pi_return (ins ! k)) [0..<length ins])"
    using b it by (intro Cons.IH) simp_all
  then show ?case
    using b Cons.prems(1) unfolding shift
    by (simp add: upt_conv_Cons map_Suc_upt del: upt_Suc)
qed

lemma sub_body_running:
  assumes "uint c < 2 ^ 62" and "ts_valid (st_next s)" and "sub_body c i s = Running s'"
  shows "ts_valid (st_next s')" and "ns_of (st_next s') = ns_of (st_next s) + uint c"
    and "st_wakes s' = st_wakes s @ [st_next s]" and "st_calls s' = st_calls s + 1"
proof -
  have "0 \<le> tv_nsec (st_next s) + uint c" and "tv_nsec (st_next s) + uint c < 2 ^ 63"
    using assms(1,2) by (simp_all add: ts_valid_def NSEC_PER_SEC_def)
  then have "signed_take_bit 63 (tv_nsec (st_next s) + uint c) = tv_nsec (st_next s) + uint c"
    by (intro signed_take_bit_int_eq_self) simp_all
  moreover have "word_of_int (tv_nsec (st_next s)) + c = word_of_int (tv_nsec (st_next s) + uint c)"
    by simp
  ultimately have "sint (word_of_int (tv_nsec (st_next s)) + c) = tv_nsec (st_next s) + uint c"
    by (simp only: signed_of_int) simp
  with assms(3) show "ts_valid (st_next s')" and "ns_of (st_next s') = ns_of (st_next s) + uint c"
    and "st_wakes s' = st_wakes s @ [st_next s]" and "st_calls s' = st_calls s + 1"
    by (auto simp: sub_body_def Let_def ts_simps split: if_splits) (simp add: ns_of_def)
qed

interpretation sub_cycle: cyclic_loop "sub_body c" "\<lambda>s. uint c < 2 ^ 62 \<and> ts_valid (st_next s)"
    "\<lambda>s. ns_of (st_next s)" "uint c" "\<lambda>s. map ns_of (st_wakes s)" "\<lambda>t. t" for c
proof
  fix i s s'
  show "uint c < 2 ^ 62 \<and> ts_valid (st_next (run_state (sub_body c i s)))"
    if "uint c < 2 ^ 62 \<and> ts_valid (st_next s)"
    using that by (auto simp: sub_body_def Let_def ts_simps)
  assume inv: "uint c < 2 ^ 62 \<and> ts_valid (st_next s)" and run: "sub_body c i s = Running s'"
  note b = sub_body_running [OF conjunct1 [OF inv] conjunct2 [OF inv] run]
  show "ns_of (st_next s') = ns_of (st_next s) + uint c"
    by (rule b)
  show "map ns_of (st_wakes s') = map ns_of (st_wakes s) @ [ns_of (st_next s)]"
    by (simp add: b)
qed

interpretation sub_wakes_valid: inv_loop "sub_body c" "\<lambda>s. ts_valid (st_next s) \<and> list_all ts_valid (st_wakes s)"
  for c
  by unfold_locales (auto simp: sub_body_def Let_def ts_simps)

lemma sub_runs: "list_all (\<lambda>r. r) ins \<Longrightarrow> \<exists>s'. iterate (sub_body c) ins s = Running s'"
  by (induction ins arbitrary: s) (auto simp: sub_body_def Let_def)

text \<open>The k-th launch time of a publisher, as a number of nanoseconds.\<close>

definition launch :: "server_data \<Rightarrow> publisher_data \<Rightarrow> int \<Rightarrow> nat \<Rightarrow> int" where
  "launch sd p sec k =
     (start_second sec + pd_publishDelaySec p) * 1000000000 + pd_publishOffsetNs p + int k * s_cycleTimeNs sd"

lemma launch_word:
  "pt_tx (pub_start x sd p now) + of_nat k * word_of_int (s_cycleTimeNs sd) = word_of_int (launch sd p (tv_sec now) k)"
  by (simp add: pub_start_def launch_def ONESEC_IN_NSEC_def Let_def)

lemma uint_u64_exact: "0 \<le> v \<Longrightarrow> v < 2 ^ 64 \<Longrightarrow> uint (word_of_int v :: u64) = v"
  by (simp add: uint_word_of_int)

lemma launch_bounds:
  assumes "server_ok sd" and "pub_ok p" and "pd_publishDelaySec p < 2 ^ 31"
    and "0 < sec" and "sec < 2 ^ 32" and "k < 2 ^ 32"
  shows "10000000000 \<le> launch sd p sec k" and "launch sd p sec k < 2 ^ 64"
proof -
  have off: "0 \<le> pd_publishOffsetNs p" "pd_publishOffsetNs p \<le> 10000000" "0 \<le> pd_publishDelaySec p"
    using assms(2) by (simp_all add: pub_ok_def)
  have cyc: "0 \<le> s_cycleTimeNs sd" "s_cycleTimeNs sd \<le> 5000000"
    using assms(1) by (simp_all add: server_ok_def)
  have "0 \<le> int k * s_cycleTimeNs sd"
    using cyc(1) by simp
  moreover have "int k * s_cycleTimeNs sd \<le> 2 ^ 32 * 5000000"
    by (rule mult_mono) (use cyc assms(6) in simp_all)
  moreover have "10 \<le> start_second sec"
  proof -
    have "10 dvd start_second sec" and "sec \<le> start_second sec"
      using start_second_ceiling assms(4) by simp_all
    then show ?thesis using assms(4) by (auto elim!: dvdE)
  qed
  moreover have "start_second sec < 2 ^ 32 + 10"
    using start_second_ceiling(3) [of sec] assms(4,5) by simp
  ultimately show "10000000000 \<le> launch sd p sec k" and "launch sd p sec k < 2 ^ 64"
    using off assms(3) by (simp_all add: launch_def)
qed

text \<open>The threads a sequence of registrations is to start, from the i-th publisher and the j-th subscriber on.\<close>

fun expected_threads ::
  "publisher_data list \<Rightarrow> subscriber_data list \<Rightarrow> (bool \<times> thread_answers) list \<Rightarrow> nat \<Rightarrow> nat \<Rightarrow> thread_desc list" where
  "expected_threads ps ds [] i j = []"
| "expected_threads ps ds ((True, a) # cs) i j =
     \<lparr>td_kind = Pub_thread, td_index = i, td_prio = 91, td_cpu = pd_cpuAffinity (ps ! i), td_id = ta_id a\<rparr> #
     expected_threads ps ds cs (i + 1) j"
| "expected_threads ps ds ((False, a) # cs) i j =
     \<lparr>td_kind = Sub_thread, td_index = j, td_prio = 90, td_cpu = sd_cpuAffinity (ds ! j), td_id = ta_id a\<rparr> #
     expected_threads ps ds cs i (j + 1)"

definition answers_ok :: "thread_answers \<Rightarrow> bool" where
  "answers_ok a \<longleftrightarrow> ta_sched a = 0 \<and> ta_affinity a = 0 \<and> ta_create a = 0"

definition thr_at :: "nat \<Rightarrow> nat \<Rightarrow> nat \<Rightarrow> thr_glob \<Rightarrow> bool" where
  "thr_at i j r g \<longleftrightarrow>
     unat (g_indexPub g) = i \<and> unat (g_indexSub g) = j \<and> unat (g_threadRun g) = r \<and>
     length (g_thread g) = MAX_OPCUA_THREAD"

lemma unat_u16_suc: "unat (w :: u16) < 65535 \<Longrightarrow> unat (w + 1) = unat w + 1"
  by (simp add: unat_word_ariths)

lemma add_callback:
  assumes "s_pubData sd = Some ps" and "s_subData sd = Some ds" and "thr_at i j r g" and "answers_ok a"
    and "if w then i < length ps else j < length ds" and "r < MAX_OPCUA_THREAD" and "i \<le> 6" and "j \<le> 6"
  shows "\<exists>g1. UA_PubSubManager_addRepeatedCallback sd True a w g = ARC_good g1 \<and>
           (if w then thr_at (i + 1) j (r + 1) g1 else thr_at i (j + 1) (r + 1) g1) \<and>
           started g1 = started g @ expected_threads ps ds [(w, a)] i j \<and>
           g_thread g1 = (g_thread g)[r := ta_id a]"
  using assms
  by (cases w)
    (auto simp: UA_PubSubManager_addRepeatedCallback_def threadCreation_def store_thread_def thr_at_def
      answers_ok_def unat_u16_suc PUB_THREAD_PRIORITY_def SUB_THREAD_PRIORITY_def MAX_OPCUA_THREAD_def)

lemma register_from:
  assumes "s_pubData sd = Some ps" and "s_subData sd = Some ds"
  shows "thr_at i j r g \<Longrightarrow> list_all (\<lambda>c. answers_ok (snd c)) cs \<Longrightarrow>
     i + length (filter fst cs) \<le> length ps \<Longrightarrow> j + length (filter (\<lambda>c. \<not> fst c) cs) \<le> length ds \<Longrightarrow>
     r + length cs \<le> MAX_OPCUA_THREAD \<Longrightarrow> i \<le> r \<Longrightarrow> j \<le> r \<Longrightarrow>
     \<exists>g'. register_all sd cs g = ARC_good g' \<and> unat (g_threadRun g') = r + length cs \<and>
       started g' = started g @ expected_threads ps ds cs i j \<and>
       take (r + length cs) (g_thread g') = take r (g_thread g) @ map (\<lambda>c. ta_id (snd c)) cs"
proof (induction cs arbitrary: i j r g)
  case Nil
  then show ?case by (simp add: thr_at_def)
next
  case (Cons c cs)
  obtain w a where c: "c = (w, a)" by fastforce
  obtain g1 where g1: "UA_PubSubManager_addRepeatedCallback sd True a w g = ARC_good g1"
    "if w then thr_at (i + 1) j (r + 1) g1 else thr_at i (j + 1) (r + 1) g1"
    "started g1 = started g @ expected_threads ps ds [(w, a)] i j" "g_thread g1 = (g_thread g)[r := ta_id a]"
    using add_callback [OF assms Cons.prems(1), of a w] Cons.prems(2-) c
    by (auto simp: MAX_OPCUA_THREAD_def split: if_splits)
  have tk: "take (Suc r) ((g_thread g)[r := ta_id a]) = take r (g_thread g) @ [ta_id a]"
    using Cons.prems(1,5) by (simp add: thr_at_def take_Suc_conv_app_nth)
  show ?case
  proof (cases w)
    case True
    then show ?thesis
      using Cons.IH [of "i + 1" j "r + 1" g1] g1 Cons.prems c tk by auto
  next
    case False
    then show ?thesis
      using Cons.IH [of i "j + 1" "r + 1" g1] g1 Cons.prems c tk by auto
  qed
qed

section \<open>Properties\<close>

text \<open>A configuration with one publisher and one subscriber, for the concrete instances.\<close>

definition ex_server :: server_data where
  "ex_server = zero_server\<lparr>s_pubInterface := Some ''eth0'', s_subInterface := Some ''eth1'',
     s_cycleTimeNs := 1000000, s_packetCount := 1000,
     s_pubData := Some [zero_pub\<lparr>pd_earlyOffsetNs := 500000, pd_publishOffsetNs := 20000, pd_publishDelaySec := 5,
                          pd_url := Some ''opc.eth://x'', pd_cpuAffinity := 2\<rparr>],
     s_subData := Some [zero_sub\<lparr>sd_offsetNs := 70000, sd_url := Some ''opc.eth://y'', sd_cpuAffinity := 3,
                          sd_fp := Some ''log'', sd_fileName := Some ''log''\<rparr>]\<rparr>"

lemma ex_server_ok: "server_ok ex_server"
  by (simp add: ex_server_def server_ok_def pub_ok_def sub_ok_def zero_server_def zero_pub_def zero_sub_def)

text \<open>
  C39: the two subtraction loops of \<^verbatim>\<open>normalize\<close>, the second started where the first stops, end for
  every input and compute the quotient and the remainder of the nanoseconds by one second: the
  result denotes the same instant and its nanoseconds are in the range \<^verbatim>\<open>clock_nanosleep\<close> accepts.
\<close>

theorem normalize_correct:
  "Option.bind (while_option (\<lambda>u. tv_nsec u > 999999999) (\<lambda>u. Timespec (tv_sec u + 1) (tv_nsec u - 1000000000)) t)
     (while_option (\<lambda>u. tv_nsec u < 0) (\<lambda>u. Timespec (tv_sec u - 1) (tv_nsec u + 1000000000))) = Some (normalize t) \<and>
   normalize t = Timespec (tv_sec t + tv_nsec t div 1000000000) (tv_nsec t mod 1000000000) \<and>
   ns_of (normalize t) = ns_of t \<and> 0 \<le> tv_nsec (normalize t) \<and> tv_nsec (normalize t) < 1000000000"
proof (intro conjI)
  show "Option.bind (while_option (\<lambda>u. tv_nsec u > 999999999) (\<lambda>u. Timespec (tv_sec u + 1) (tv_nsec u - 1000000000)) t)
     (while_option (\<lambda>u. tv_nsec u < 0) (\<lambda>u. Timespec (tv_sec u - 1) (tv_nsec u + 1000000000))) = Some (normalize t)"
    using normalize_up_while [of t] normalize_down_while [of "normalize_up t"]
    by (simp add: ONESEC_IN_NSEC_def normalize_def)
  show "normalize t = Timespec (tv_sec t + tv_nsec t div 1000000000) (tv_nsec t mod 1000000000)"
    by (simp add: normalize_eq ONESEC_IN_NSEC_def)
  show "ns_of (normalize t) = ns_of t"
    by (rule ns_of_normalize)
  show "0 \<le> tv_nsec (normalize t)" and "tv_nsec (normalize t) < 1000000000"
    using normalize_valid [of t] by (simp_all add: ts_valid_def NSEC_PER_SEC_def)
qed







end
