(* ===== verification/Opcua_System.thy ===== *)
theory Opcua_System
  imports Opcua_Custom
begin

text \<open>
  The threads of \<^verbatim>\<open>src/opcua-tsn/opcua_custom.c\<close> together with the data source callbacks of
  \<^verbatim>\<open>src/opcua-tsn/opcua_datasource.c\<close>: the publisher of one server and the subscriber of another. The
  loop of a thread and the callback it causes meet in \<^verbatim>\<open>g_running\<close>: the callback that handles the last
  packet clears it, and the loop ends at its next test.

  Between the loop and the callback is the OPC UA library, which is not part of the program:
  \<^verbatim>\<open>pubCallback\<close> and \<^verbatim>\<open>subCallback\<close> are arguments. What the program relies on are \<open>publishes_once\<close> (one
  publish call reads the data source once and sends one message with the launch time of the
  transport settings) and \<open>receives_once\<close> (one receive call hands a packet that has arrived to the
  write callback once, and does nothing when none has).
\<close>

section \<open>The publishing side\<close>

type_synonym publish_cb = "timespec \<Rightarrow> u64 \<Rightarrow> ds_glob \<Rightarrow> (u64 \<times> u64 list) list \<times> ds_glob"

definition publishes_once :: "publish_cb \<Rightarrow> bool" where
  "publishes_once publish \<longleftrightarrow>
     (\<forall>now t g. publish now t g = (case pubGetDataToTransmit now g of (d, g') \<Rightarrow> ([(t, d)], g')))"

record pub_sys =
  ys_thr :: pub_st
  ys_glob :: ds_glob
  ys_sent :: "(u64 \<times> u64 list) list"

definition pub_sys_body :: "publish_cb \<Rightarrow> int \<Rightarrow> u64 \<Rightarrow> timespec \<Rightarrow> pub_sys \<Rightarrow> (unit, pub_sys) run" where
  "pub_sys_body pubCallback earlyOffsetNs cycleTimeNs now s =
     (let g = ys_glob s
      in case pub_body earlyOffsetNs cycleTimeNs \<lparr>pi_running = g_running g, pi_return = g_pubReturn g\<rparr> (ys_thr s) of
           Running t \<Rightarrow>
             if \<not> g_pubReturn g then Running (s\<lparr>ys_thr := t\<rparr>)
             else (case pubCallback now (pt_transmission_time (ys_thr s)) g of
                     (ms, g') \<Rightarrow> Running (s\<lparr>ys_thr := t, ys_glob := g', ys_sent := ys_sent s @ ms\<rparr>))
         | Done t \<Rightarrow> Done (s\<lparr>ys_thr := t\<rparr>)
         | Exited e t \<Rightarrow> Exited e (s\<lparr>ys_thr := t\<rparr>))"

definition pub_system ::
  "publish_cb \<Rightarrow> bool \<Rightarrow> server_data \<Rightarrow> nat \<Rightarrow> timespec \<Rightarrow> timespec list \<Rightarrow> (unit, pub_sys) run option" where
  "pub_system pubCallback xdptbs sd ind temp_t nows =
     (case s_pubData sd of
        None \<Rightarrow> None
      | Some ps \<Rightarrow>
          if length ps \<le> ind then None
          else
            (case iterate (pub_sys_body pubCallback (pd_earlyOffsetNs (ps ! ind)) (word_of_int (s_cycleTimeNs sd))) nows
                    \<lparr>ys_thr = pub_start xdptbs sd (ps ! ind) temp_t,
                     ys_glob = ds_init (s_packetCount sd) (s_msqid sd) True, ys_sent = []\<rparr> of
               Done s \<Rightarrow> Some (Done (s\<lparr>ys_thr := (ys_thr s)\<lparr>pt_freed := True\<rparr>\<rparr>))
             | r \<Rightarrow> Some r))"

section \<open>The subscribing side\<close>

type_synonym receive_cb =
  "int \<Rightarrow> u64 list option \<Rightarrow> timespec \<Rightarrow> sub_file \<times> ds_glob \<Rightarrow> (sub_file \<times> ds_glob) option"

definition receives_once :: "receive_cb \<Rightarrow> bool" where
  "receives_once receive \<longleftrightarrow>
     (\<forall>sid now fg. receive sid None now fg = Some fg \<and>
        (\<forall>d. receive sid (Some d) now fg =
               subStoreDataReceived sid (D_variant (of_nat (length d)) (Some d)) now True fg))"

record sub_sys =
  zs_thr :: sub_st
  zs_file :: sub_file
  zs_glob :: ds_glob

definition sub_sys_body ::
  "receive_cb \<Rightarrow> int \<Rightarrow> u64 \<Rightarrow> u64 list option \<times> timespec \<Rightarrow> sub_sys \<Rightarrow> (unit, sub_sys) run" where
  "sub_sys_body subCallback sid cycleTimeNs i s =
     (case sub_body cycleTimeNs (g_running (zs_glob s)) (zs_thr s) of
        Running t \<Rightarrow>
          (case subCallback sid (fst i) (snd i) (zs_file s, zs_glob s) of
             None \<Rightarrow> Exited () s
           | Some (f, g) \<Rightarrow> Running (s\<lparr>zs_thr := t, zs_file := f, zs_glob := g\<rparr>))
      | Done t \<Rightarrow> Done (s\<lparr>zs_thr := t\<rparr>)
      | Exited e t \<Rightarrow> Exited e (s\<lparr>zs_thr := t\<rparr>))"

definition sub_system ::
  "receive_cb \<Rightarrow> server_data \<Rightarrow> nat \<Rightarrow> timespec \<Rightarrow> (u64 list option \<times> timespec) list \<Rightarrow> (unit, sub_sys) run option" where
  "sub_system subCallback sd ind now ins =
     (case s_subData sd of
        None \<Rightarrow> None
      | Some ds \<Rightarrow>
          if length ds \<le> ind then None
          else
            (case iterate (sub_sys_body subCallback (sd_id (ds ! ind)) (word_of_int (s_cycleTimeNs sd))) ins
                    \<lparr>zs_thr = sub_start (ds ! ind) now,
                     zs_file = \<lparr>fp_open = (sd_fp (ds ! ind) \<noteq> None), fp_lines = []\<rparr>,
                     zs_glob = ds_init (s_packetCount sd) (s_msqid sd) True\<rparr> of
               Done s \<Rightarrow> Some (Done (s\<lparr>zs_thr := (zs_thr s)\<lparr>st_freed := True\<rparr>\<rparr>))
             | r \<Rightarrow> Some r))"

text \<open>The packets among the inputs of the subscriber, with their times of arrival.\<close>

fun packets :: "(u64 list option \<times> timespec) list \<Rightarrow> (u64 list \<times> timespec) list" where
  "packets [] = []"
| "packets ((None, t) # ins) = packets ins"
| "packets ((Some d, t) # ins) = (d, t) # packets ins"

section \<open>Lemmas\<close>

lemma pub_sys_step:
  assumes "publishes_once cb" and "g_running (ys_glob s)" and "g_pubReturn (ys_glob s)"
    and "pt_transmission_time (ys_thr s) = pt_tx (ys_thr s)"
  shows "\<exists>t. pub_sys_body cb e c now s =
      Running (s\<lparr>ys_thr := t, ys_glob := snd (pubGetDataToTransmit now (ys_glob s)),
                 ys_sent := ys_sent s @ [(pt_tx (ys_thr s), fst (pubGetDataToTransmit now (ys_glob s)))]\<rparr>) \<and>
    pt_tx t = pt_tx (ys_thr s) + c \<and> pt_transmission_time t = pt_tx t"
  using assms by (auto simp: pub_sys_body_def pub_body_def publishes_once_def Let_def split_beta)

lemma pub_sys_stops: "\<not> g_running (ys_glob s) \<Longrightarrow> pub_sys_body cb e c now s = Done s"
  by (simp add: pub_sys_body_def pub_body_def)

lemma pubGet_keeps:
  "g_pubReturn (snd (pubGetDataToTransmit now g)) = g_pubReturn g"
  "packetCount (snd (pubGetDataToTransmit now g)) = packetCount g"
  "tx_sequence (snd (pubGetDataToTransmit now g)) = tx_sequence g + 1"
  "g_running (snd (pubGetDataToTransmit now g)) \<longleftrightarrow> g_running g \<and> tx_sequence g + 1 \<noteq> packetCount g"
  by (simp_all add: pubGetDataToTransmit_def Let_def)

text \<open>Up to the call that handles the last number, the loop is one call per iteration.\<close>

lemma pub_sys_calls:
  assumes "publishes_once cb"
  shows "(nows \<noteq> [] \<longrightarrow> g_running (ys_glob s)) \<Longrightarrow> g_pubReturn (ys_glob s) \<Longrightarrow>
    pt_transmission_time (ys_thr s) = pt_tx (ys_thr s) \<Longrightarrow>
    \<forall>k. Suc k < length nows \<longrightarrow> tx_sequence (ys_glob s) + 1 + of_nat k \<noteq> packetCount (ys_glob s) \<Longrightarrow>
    \<exists>s'. iterate (pub_sys_body cb e c) nows s = Running s' \<and> ys_glob s' = snd (pub_calls nows (ys_glob s)) \<and>
      ys_sent s' = ys_sent s @
        zip (map (\<lambda>k. pt_tx (ys_thr s) + of_nat k * c) [0..<length nows]) (fst (pub_calls nows (ys_glob s)))"
proof (induction nows arbitrary: s)
  case Nil
  then show ?case by simp
next
  case (Cons now nows)
  let ?g = "snd (pubGetDataToTransmit now (ys_glob s))"
  have "g_running (ys_glob s)" using Cons.prems(1) by simp
  from pub_sys_step [OF assms this Cons.prems(2,3), of e c now] obtain t where
    t: "pub_sys_body cb e c now s = Running (s\<lparr>ys_thr := t, ys_glob := ?g,
          ys_sent := ys_sent s @ [(pt_tx (ys_thr s), fst (pubGetDataToTransmit now (ys_glob s)))]\<rparr>)"
    "pt_tx t = pt_tx (ys_thr s) + c" "pt_transmission_time t = pt_tx t" by blast
  let ?s = "s\<lparr>ys_thr := t, ys_glob := ?g,
          ys_sent := ys_sent s @ [(pt_tx (ys_thr s), fst (pubGetDataToTransmit now (ys_glob s)))]\<rparr>"
  have later: "tx_sequence ?g + 1 + of_nat k \<noteq> packetCount ?g" if "Suc k < length nows" for k
    using Cons.prems(4) [rule_format, of "Suc k"] that by (simp add: pubGet_keeps algebra_simps)
  have run: "nows \<noteq> [] \<longrightarrow> g_running ?g"
    using Cons.prems(4) [rule_format, of 0] \<open>g_running (ys_glob s)\<close> by (cases nows) (simp_all add: pubGet_keeps)
  have shift: "map (\<lambda>k. pt_tx (ys_thr s) + of_nat k * c) [0..<Suc (length nows)] =
      pt_tx (ys_thr s) # map (\<lambda>k. pt_tx t + of_nat k * c) [0..<length nows]"
    by (rule nth_equalityI) (simp_all add: t(2) nth_Cons' algebra_simps of_nat_diff del: upt_Suc)
  show ?case
    using Cons.IH [of ?s] later run Cons.prems(2) t shift
    by (auto simp: pubGet_keeps split_beta simp del: upt_Suc)
qed

lemma sub_sys_idle:
  assumes "receives_once cb" and "g_running (zs_glob s)"
  shows "\<exists>t. sub_sys_body cb sid c (None, now) s = Running (s\<lparr>zs_thr := t\<rparr>)"
  using assms by (simp add: sub_sys_body_def sub_body_def receives_once_def Let_def) blast

lemma sub_sys_packet:
  assumes "receives_once cb" and "g_running (zs_glob s)" and "fp_open (zs_file s)" and "g_msqid (zs_glob s) < 0"
  shows "\<exists>t. sub_sys_body cb sid c (Some [a, b], now) s =
    Running (s\<lparr>zs_thr := t,
      zs_file := (zs_file s)\<lparr>fp_lines := fp_lines (zs_file s) @ [sub_line sid a b (as_nanoseconds now)],
                            fp_open := (a \<noteq> packetCount (zs_glob s))\<rparr>,
      zs_glob := (zs_glob s)\<lparr>g_pubReturn := True, g_running := (a \<noteq> packetCount (zs_glob s))\<rparr>\<rparr>)"
proof -
  have "(of_nat (length [a, b]) :: u64) = 2" by simp
  then have "cb sid (Some [a, b]) now (zs_file s, zs_glob s) =
      subStoreDataReceived sid (D_variant 2 (Some [a, b])) now True (zs_file s, zs_glob s)"
    using assms(1) unfolding receives_once_def by metis
  then show ?thesis
    using subStore_logs [OF assms(3,4), of sid a b now] assms(2)
    by (simp add: sub_sys_body_def sub_body_def Let_def) blast
qed

lemma sub_sys_stops: "\<not> g_running (zs_glob s) \<Longrightarrow> sub_sys_body cb sid c i s = Done s"
  by (simp add: sub_sys_body_def sub_body_def)

text \<open>Before the last packet the loop keeps running and logs what arrives, in any number of idle cycles.\<close>

lemma sub_sys_logs:
  assumes "receives_once cb"
  shows "packets ins = map (\<lambda>(a, b, t). ([a, b], t)) ps \<Longrightarrow> g_running (zs_glob s) \<Longrightarrow> fp_open (zs_file s) \<Longrightarrow>
    g_msqid (zs_glob s) < 0 \<Longrightarrow> \<forall>p \<in> set ps. fst p \<noteq> packetCount (zs_glob s) \<Longrightarrow>
    \<exists>s'. iterate (sub_sys_body cb sid c) ins s = Running s' \<and> g_running (zs_glob s') \<and> fp_open (zs_file s') \<and>
      g_msqid (zs_glob s') < 0 \<and> packetCount (zs_glob s') = packetCount (zs_glob s) \<and>
      fp_lines (zs_file s') = fp_lines (zs_file s) @ map (\<lambda>(a, b, t). sub_line sid a b (as_nanoseconds t)) ps"
proof (induction ins arbitrary: ps s rule: packets.induct)
  case 1
  then show ?case by simp
next
  case (2 t ins)
  obtain u where "sub_sys_body cb sid c (None, t) s = Running (s\<lparr>zs_thr := u\<rparr>)"
    using sub_sys_idle [OF assms "2.prems"(2)] by blast
  then show ?case
    using "2.IH" [of ps "s\<lparr>zs_thr := u\<rparr>"] "2.prems" by simp
next
  case (3 d t ins)
  then obtain a b ps' where ps: "ps = (a, b, t) # ps'" "d = [a, b]" "packets ins = map (\<lambda>(a, b, t). ([a, b], t)) ps'"
    by (cases ps) auto
  obtain s1 where s1: "sub_sys_body cb sid c (Some [a, b], t) s = Running s1" "g_running (zs_glob s1)"
    "fp_open (zs_file s1)" "g_msqid (zs_glob s1) < 0" "packetCount (zs_glob s1) = packetCount (zs_glob s)"
    "fp_lines (zs_file s1) = fp_lines (zs_file s) @ [sub_line sid a b (as_nanoseconds t)]"
    using sub_sys_packet [OF assms "3.prems"(2-4), of sid c a b t] "3.prems"(4,5) ps(1) by force
  then show ?case
    using "3.IH" [OF ps(3), of s1] "3.prems"(5) ps by auto
qed

lemma packets_snoc:
  "packets ins = xs @ [(d, t)] \<Longrightarrow> \<exists>ins1 ins2. ins = ins1 @ (Some d, t) # ins2 \<and> packets ins1 = xs"
proof (induction ins arbitrary: xs rule: packets.induct)
  case 1
  then show ?case by simp
next
  case (2 t' ins)
  then obtain i1 i2 where "ins = i1 @ (Some d, t) # i2" "packets i1 = xs" by force
  then show ?case by (intro exI [of _ "(None, t') # i1"] exI [of _ i2]) simp
next
  case (3 d' t' ins)
  show ?case
  proof (cases xs)
    case Nil
    with 3 show ?thesis by (intro exI [of _ "[]"] exI [of _ ins]) simp
  next
    case (Cons x xs')
    with 3 obtain i1 i2 where "ins = i1 @ (Some d, t) # i2" "packets i1 = xs'" by force
    with Cons 3 show ?thesis by (intro exI [of _ "(Some d', t') # i1"] exI [of _ i2]) simp
  qed
qed

text \<open>The numbers of the packets: the k-th carries \<open>k - 1\<close>.\<close>

lemma number_of_packet: "(- 2 :: u64) + 1 + of_nat k = word_of_int (int k - 1)"
  by simp

lemma pub_system_runs:
  assumes "publishes_once cb" and "s_pubData sd = Some ps" and "ind < length ps"
    and "1 \<le> unat (s_packetCount sd)" and "unat (s_packetCount sd) \<le> 10000000"
    and "unat (s_packetCount sd) + 2 < length nows"
  shows "\<exists>p. pub_system cb tbs sd ind now nows = Some (Done p) \<and>
    ys_sent p = map (\<lambda>k. (word_of_int (launch sd (ps ! ind) (tv_sec now) k), [word_of_int (int k - 1), as_nanoseconds (nows ! k)]))
                  [0..<unat (s_packetCount sd) + 2]"
proof -
  let ?n = "unat (s_packetCount sd) + 2" and ?g = "ds_init (s_packetCount sd) (s_msqid sd) True"
  let ?c = "word_of_int (s_cycleTimeNs sd) :: u64" and ?e = "pd_earlyOffsetNs (ps ! ind)"
  let ?s = "\<lparr>ys_thr = pub_start tbs sd (ps ! ind) now, ys_glob = ?g, ys_sent = []\<rparr>"
  obtain last rest where nows: "nows = take ?n nows @ last # rest"
    using assms(6) id_take_nth_drop by blast
  have tx0: "pt_transmission_time (ys_thr ?s) = pt_tx (ys_thr ?s)"
    by (simp add: pub_start_def Let_def)
  have count: "(word_of_int (int k - 1) :: u64) = s_packetCount sd \<longleftrightarrow> k = unat (s_packetCount sd) + 1"
    if "k < ?n" for k
    using that assms(5) by (intro number_is_count) simp_all
  have early: "\<forall>k. Suc k < length (take ?n nows) \<longrightarrow> tx_sequence ?g + 1 + of_nat k \<noteq> packetCount ?g"
    using count by (auto simp: ds_init_def)
  obtain s where s: "iterate (pub_sys_body cb ?e ?c) (take ?n nows) ?s = Running s"
    "ys_glob s = snd (pub_calls (take ?n nows) ?g)"
    "ys_sent s = zip (map (\<lambda>k. pt_tx (ys_thr ?s) + of_nat k * ?c) [0..<?n]) (fst (pub_calls (take ?n nows) ?g))"
    using pub_sys_calls [OF assms(1) _ _ tx0, of "take ?n nows" ?e ?c] early assms(6)
    by (auto simp: ds_init_def min_def)
  have "\<not> g_running (ys_glob s)"
    using count [of "unat (s_packetCount sd) + 1"] assms(6)
    unfolding s(2) pub_calls_running by (auto simp: ds_init_def intro!: exI [of _ "unat (s_packetCount sd) + 1"])
  then have "iterate (pub_sys_body cb ?e ?c) (take ?n nows @ last # rest) ?s = Done s"
    unfolding iterate_append s(1) by (simp add: pub_sys_stops)
  then have "iterate (pub_sys_body cb ?e ?c) nows ?s = Done s"
    using nows by argo
  moreover have "ys_sent s = map (\<lambda>k. (word_of_int (launch sd (ps ! ind) (tv_sec now) k),
      [word_of_int (int k - 1), as_nanoseconds (nows ! k)])) [0..<?n]"
    unfolding s(3) pub_calls_sent using assms(6)
    by (intro nth_equalityI) (simp_all add: launch_word ds_init_def del: upt_Suc)
  ultimately show ?thesis
    using assms(2,3) by (simp add: pub_system_def)
qed

lemma sub_system_runs:
  assumes "receives_once cb" and "s_subData sd = Some ds" and "ind < length ds" and "sd_fp (ds ! ind) \<noteq> None"
    and "s_msqid sd < 0" and "packets ins = map (\<lambda>(a, b, t). ([a, b], t)) (ps @ [(s_packetCount sd, b, t)])"
    and "\<forall>p \<in> set ps. fst p \<noteq> s_packetCount sd" and "idle \<noteq> []"
  shows "\<exists>s. sub_system cb sd ind now (ins @ idle) = Some (Done s) \<and> \<not> fp_open (zs_file s) \<and> \<not> g_running (zs_glob s) \<and>
    fp_lines (zs_file s) = map (\<lambda>(a, b, t). sub_line (sd_id (ds ! ind)) a b (as_nanoseconds t)) (ps @ [(s_packetCount sd, b, t)])"
proof -
  let ?body = "sub_sys_body cb (sd_id (ds ! ind)) (word_of_int (s_cycleTimeNs sd))"
  let ?s = "\<lparr>zs_thr = sub_start (ds ! ind) now, zs_file = \<lparr>fp_open = True, fp_lines = []\<rparr>,
      zs_glob = ds_init (s_packetCount sd) (s_msqid sd) True\<rparr>"
  obtain ins1 ins2 where ins: "ins = ins1 @ (Some [s_packetCount sd, b], t) # ins2"
    "packets ins1 = map (\<lambda>(a, b, t). ([a, b], t)) ps"
    using packets_snoc [of ins "map (\<lambda>(a, b, t). ([a, b], t)) ps" "[s_packetCount sd, b]" t] assms(6) by auto
  obtain s1 where s1: "iterate ?body ins1 ?s = Running s1" "g_running (zs_glob s1)" "fp_open (zs_file s1)"
    "g_msqid (zs_glob s1) < 0" "packetCount (zs_glob s1) = s_packetCount sd"
    "fp_lines (zs_file s1) = map (\<lambda>(a, b, t). sub_line (sd_id (ds ! ind)) a b (as_nanoseconds t)) ps"
    using sub_sys_logs [OF assms(1) ins(2), of ?s "sd_id (ds ! ind)" "word_of_int (s_cycleTimeNs sd)"] assms(5,7)
    by (auto simp: ds_init_def)
  obtain s2 where s2: "?body (Some [s_packetCount sd, b], t) s1 = Running s2" "\<not> g_running (zs_glob s2)"
    "\<not> fp_open (zs_file s2)"
    "fp_lines (zs_file s2) = fp_lines (zs_file s1) @ [sub_line (sd_id (ds ! ind)) (s_packetCount sd) b (as_nanoseconds t)]"
    using sub_sys_packet [OF assms(1) s1(2-4), of "sd_id (ds ! ind)" "word_of_int (s_cycleTimeNs sd)" "s_packetCount sd" b t]
      s1(5) by force
  have "iterate ?body (ins2 @ idle) s2 = Done s2"
    using assms(8) sub_sys_stops [OF s2(2)] by (cases "ins2 @ idle") auto
  then have "iterate ?body (ins @ idle) ?s = Done s2"
    by (simp add: ins(1) iterate_append [where s = ?s] s1(1) s2(1))
  then show ?thesis
    using assms(2-4) s2 s1(6) by (simp add: sub_system_def)
qed

text \<open>A subscriber that is given the packets with the numbers -1 to the count.\<close>

lemma sub_system_given:
  assumes "receives_once subCallback" and "s_subData sd = Some ds" and "j < length ds" and "sd_fp (ds ! j) \<noteq> None"
    and "s_msqid sd < 0" and "s_packetCount sd = n" and "unat n \<le> 10000000"
    and arr: "packets ins = zip (map (\<lambda>k. [word_of_int (int k - 1), as_nanoseconds (nows ! k)]) [0..<unat n + 2]) rs"
      "length rs = unat n + 2" "idle \<noteq> []"
  shows "\<exists>s. sub_system subCallback sd j t1 (ins @ idle) = Some (Done s) \<and>
        fp_lines (zs_file s) =
          map (\<lambda>k. sub_line (sd_id (ds ! j)) (word_of_int (int k - 1)) (as_nanoseconds (nows ! k)) (as_nanoseconds (rs ! k)))
            [0..<unat n + 2] \<and>
        \<not> fp_open (zs_file s) \<and> \<not> g_running (zs_glob s)"
proof -
  let ?c = "unat n" and ?q = "\<lambda>k. (word_of_int (int k - 1) :: u64, as_nanoseconds (nows ! k), rs ! k)"
  have "s_packetCount sd = word_of_int (int (?c + 1) - 1)"
    using number_is_count [of "?c + 1" n] assms(6,7) by simp
  then have all: "map ?q [0..<?c + 2] = map ?q [0..<?c + 1] @ [(s_packetCount sd, as_nanoseconds (nows ! (?c + 1)), rs ! (?c + 1))]"
    by simp
  have "packets ins = map (\<lambda>(a, b, t). ([a, b], t)) (map ?q [0..<?c + 2])"
    unfolding arr(1) using arr(2) by (intro nth_equalityI) (simp_all del: upt_Suc)
  moreover have "\<forall>x \<in> set (map ?q [0..<?c + 1]). fst x \<noteq> s_packetCount sd"
    using number_is_count [of _ n] assms(6,7) by auto
  ultimately obtain s where "sub_system subCallback sd j t1 (ins @ idle) = Some (Done s)"
    "\<not> fp_open (zs_file s)" "\<not> g_running (zs_glob s)"
    "fp_lines (zs_file s) = map (\<lambda>(a, b, t). sub_line (sd_id (ds ! j)) a b (as_nanoseconds t)) (map ?q [0..<?c + 2])"
    using sub_system_runs [OF assms(1-5) _ _ arr(3), where ps = "map ?q [0..<?c + 1]" and now = t1]
    unfolding all by blast
  then show ?thesis by (simp del: upt_Suc)
qed

section \<open>Properties\<close>

text \<open>
  C7: a complete one-way measurement, thread loops and callbacks together. The publisher thread
  publishes one packet per cycle, numbered -1, 0, \<dots> up to the configured count, each with its own
  launch time on the grid of the cycle time, and returns. A subscriber thread that is given these
  packets in order, with any idle cycles in between, writes exactly one line for each, with its
  number, its send and receive times and their difference; then it closes its file, stops its server
  and returns.
\<close>

theorem one_way_run:
  assumes "publishes_once pubCallback" and "receives_once subCallback" and "server_ok sdP" and "server_ok sdS"
    and "s_pubData sdP = Some ps" and "i < length ps" and "s_subData sdS = Some ds" and "j < length ds"
    and "s_packetCount sdS = s_packetCount sdP" and "s_msqid sdS < 0"
    and "pd_publishDelaySec (ps ! i) < 2 ^ 31" and "0 < tv_sec t0" and "tv_sec t0 < 2 ^ 32"
    and "unat (s_packetCount sdP) + 2 < length nows"
  shows "\<exists>p. pub_system pubCallback tbs sdP i t0 nows = Some (Done p) \<and>
    map (\<lambda>m. uint (fst m)) (ys_sent p) = map (launch sdP (ps ! i) (tv_sec t0)) [0..<unat (s_packetCount sdP) + 2] \<and>
    (\<forall>ins rs idle. packets ins = zip (map snd (ys_sent p)) rs \<and> length rs = length (ys_sent p) \<and> idle \<noteq> [] \<longrightarrow>
      (\<exists>s. sub_system subCallback sdS j t1 (ins @ idle) = Some (Done s) \<and>
        fp_lines (zs_file s) =
          map (\<lambda>k. sub_line (sd_id (ds ! j)) (word_of_int (int k - 1)) (as_nanoseconds (nows ! k)) (as_nanoseconds (rs ! k)))
            [0..<unat (s_packetCount sdP) + 2] \<and>
        \<not> fp_open (zs_file s) \<and> \<not> g_running (zs_glob s)))"
proof -
  let ?c = "unat (s_packetCount sdP)"
  have "1 \<le> uint (s_packetCount sdP)" and "uint (s_packetCount sdP) \<le> 10000000"
    using assms(3) by (simp_all add: server_ok_def)
  then have range: "1 \<le> ?c" "?c \<le> 10000000"
    unfolding uint_nat by linarith+
  have ok: "pub_ok (ps ! i)" "sub_ok (ds ! j)"
    using assms(3-8) by (auto simp: server_ok_def list_all_length)
  have fp: "sd_fp (ds ! j) \<noteq> None"
    using ok(2) by (auto simp: sub_ok_def)
  obtain p where p: "pub_system pubCallback tbs sdP i t0 nows = Some (Done p)"
    "ys_sent p = map (\<lambda>k. (word_of_int (launch sdP (ps ! i) (tv_sec t0) k), [word_of_int (int k - 1), as_nanoseconds (nows ! k)]))
       [0..<?c + 2]"
    using pub_system_runs [OF assms(1,5,6) range assms(14)] by blast
  have launches: "uint (word_of_int (launch sdP (ps ! i) (tv_sec t0) k) :: u64) = launch sdP (ps ! i) (tv_sec t0) k"
    if "k < ?c + 2" for k
    using launch_bounds [OF assms(3) ok(1) assms(11-13), of k] that range(2) by (intro uint_u64_exact) simp_all
  have numbered: "map snd (ys_sent p) = map (\<lambda>k. [word_of_int (int k - 1), as_nanoseconds (nows ! k)]) [0..<?c + 2]"
    and n: "length (ys_sent p) = ?c + 2"
    by (simp_all add: p(2) comp_def del: upt_Suc)
  note sub = sub_system_given [OF assms(2,7,8) fp assms(10,9) range(2)]
  have "\<exists>s. sub_system subCallback sdS j t1 (ins @ idle) = Some (Done s) \<and>
        fp_lines (zs_file s) =
          map (\<lambda>k. sub_line (sd_id (ds ! j)) (word_of_int (int k - 1)) (as_nanoseconds (nows ! k)) (as_nanoseconds (rs ! k)))
            [0..<?c + 2] \<and>
        \<not> fp_open (zs_file s) \<and> \<not> g_running (zs_glob s)"
    if "packets ins = zip (map snd (ys_sent p)) rs \<and> length rs = length (ys_sent p) \<and> idle \<noteq> []" for ins rs idle
    using that sub unfolding numbered n by blast
  with p launches show ?thesis by (intro exI [of _ p]) (simp del: upt_Suc)
qed

text \<open>The library calls as the documentation describes them, and a server that publishes one number after the first two.\<close>

definition ex_publish :: publish_cb where
  "ex_publish now t g = (case pubGetDataToTransmit now g of (d, g') \<Rightarrow> ([(t, d)], g'))"

definition ex_receive :: receive_cb where
  "ex_receive sid d now fg =
     (case d of
        None \<Rightarrow> Some fg
      | Some v \<Rightarrow> subStoreDataReceived sid (D_variant (of_nat (length v)) (Some v)) now True fg)"

definition ex_short :: server_data where
  "ex_short = ex_server\<lparr>s_packetCount := 1, s_msqid := - 1\<rparr>"

lemma ex_short_ok: "server_ok ex_short"
  by (simp add: ex_short_def ex_server_def server_ok_def pub_ok_def sub_ok_def zero_server_def zero_pub_def zero_sub_def)

theorem one_way_run_witness:
  "\<exists>p s. pub_system ex_publish False ex_short 0 (Timespec 12 0)
        [Timespec 25 1, Timespec 25 2, Timespec 25 3, Timespec 25 4] = Some (Done p) \<and>
     map (\<lambda>m. uint (fst m)) (ys_sent p) = [25000020000, 25001020000, 25002020000] \<and>
     sub_system ex_receive ex_short 0 (Timespec 12 0)
       [(None, Timespec 25 5), (Some (snd (ys_sent p ! 0)), Timespec 25 6), (Some (snd (ys_sent p ! 1)), Timespec 25 7),
        (Some (snd (ys_sent p ! 2)), Timespec 25 8), (None, Timespec 25 9)] = Some (Done s) \<and>
     length (fp_lines (zs_file s)) = 3 \<and> \<not> fp_open (zs_file s)"
proof -
  have cbs: "publishes_once ex_publish" "receives_once ex_receive"
    by (simp_all add: publishes_once_def receives_once_def ex_publish_def ex_receive_def)
  have data: "s_pubData ex_short = Some (the (s_pubData ex_short))" "0 < length (the (s_pubData ex_short))"
    "s_subData ex_short = Some (the (s_subData ex_short))" "0 < length (the (s_subData ex_short))"
    "s_msqid ex_short < 0" "pd_publishDelaySec (the (s_pubData ex_short) ! 0) < 2 ^ 31"
    "unat (s_packetCount ex_short) + 2 < length [Timespec 25 1, Timespec 25 2, Timespec 25 3, Timespec 25 4]"
    by (simp_all add: ex_short_def ex_server_def zero_pub_def)
  obtain p where p: "pub_system ex_publish False ex_short 0 (Timespec 12 0)
      [Timespec 25 1, Timespec 25 2, Timespec 25 3, Timespec 25 4] = Some (Done p)"
    and launch: "map (\<lambda>m. uint (fst m)) (ys_sent p) =
      map (launch ex_short (the (s_pubData ex_short) ! 0) 12) [0..<unat (s_packetCount ex_short) + 2]"
    and sub: "\<forall>ins rs idle. packets ins = zip (map snd (ys_sent p)) rs \<and> length rs = length (ys_sent p) \<and> idle \<noteq> [] \<longrightarrow>
      (\<exists>s. sub_system ex_receive ex_short 0 (Timespec 12 0) (ins @ idle) = Some (Done s) \<and>
        length (fp_lines (zs_file s)) = unat (s_packetCount ex_short) + 2 \<and> \<not> fp_open (zs_file s))"
    using one_way_run [OF cbs ex_short_ok ex_short_ok data(1-4) refl data(5,6) _ _ data(7), of "Timespec 12 0" False "Timespec 12 0"]
    by force
  have times: "map (\<lambda>m. uint (fst m)) (ys_sent p) = [25000020000, 25001020000, 25002020000]"
    unfolding launch
    by (simp add: ex_short_def ex_server_def launch_def start_second_def upt_conv_Cons signed_divide_int_eq_divide_int zero_pub_def)
  then obtain x y z where xyz: "ys_sent p = [x, y, z]"
    by (auto simp: map_eq_Cons_conv)
  show ?thesis
    using p times sub [rule_format, of "[(None, Timespec 25 5), (Some (snd x), Timespec 25 6), (Some (snd y), Timespec 25 7),
        (Some (snd z), Timespec 25 8)]" "[Timespec 25 6, Timespec 25 7, Timespec 25 8]" "[(None, Timespec 25 9)]"] xyz
    by (auto simp: ex_short_def)
qed

end
