(* ===== verification/Opcua_Trip.thy ===== *)
theory Opcua_Trip
  imports Opcua_Roundtrip Opcua_System
begin

text \<open>
  The whole round trip: server A with its publisher thread and its subscriber, server B with its
  subscriber and its returning publisher (the machine of \<open>Opcua_Roundtrip\<close>), and the two paths
  between them, which keep the order of packets but may lose any of them. The two threads of
  server A share its globals, as those of server B do.

  \<open>tr_arr\<close> records the packets that came back to A, with the times of their arrival.
\<close>

section \<open>The system\<close>

record trip_sys =
  tr_pub :: pub_sys
  tr_file :: sub_file
  tr_ab :: "u64 list list"
  tr_b :: rt_st
  tr_ba :: "u64 list list"
  tr_arr :: "(u64 list \<times> timespec) list"

definition arrived :: "u64 list \<Rightarrow> ua_data" where
  "arrived d = D_variant (of_nat (length d)) (Some d)"

inductive trip_step :: "publish_cb \<Rightarrow> int \<Rightarrow> u64 \<Rightarrow> int \<Rightarrow> int \<Rightarrow> trip_sys \<Rightarrow> trip_sys \<Rightarrow> bool"
  for cb early cyc sidA sidB where
  publish: "pub_sys_body cb early cyc now (tr_pub s) = Running y \<Longrightarrow>
    trip_step cb early cyc sidA sidB s
      (s\<lparr>tr_pub := y, tr_ab := tr_ab s @ map snd (drop (length (ys_sent (tr_pub s))) (ys_sent y))\<rparr>)"
| lose_ab: "tr_ab s = ds @ d # ds' \<Longrightarrow> trip_step cb early cyc sidA sidB s (s\<lparr>tr_ab := ds @ ds'\<rparr>)"
| receive_b: "tr_ab s = d # ds \<Longrightarrow> rt_step sidB (tr_b s) b \<Longrightarrow> rt_rx b = rt_rx (tr_b s) @ rx_of (arrived d) \<Longrightarrow>
    trip_step cb early cyc sidA sidB s (s\<lparr>tr_ab := ds, tr_b := b\<rparr>)"
| return_b: "rt_step sidB (tr_b s) b \<Longrightarrow> rt_rx b = rt_rx (tr_b s) \<Longrightarrow>
    trip_step cb early cyc sidA sidB s
      (s\<lparr>tr_b := b, tr_ba := tr_ba s @ drop (length (rt_ret (tr_b s))) (rt_ret b)\<rparr>)"
| lose_ba: "tr_ba s = ds @ d # ds' \<Longrightarrow> trip_step cb early cyc sidA sidB s (s\<lparr>tr_ba := ds @ ds'\<rparr>)"
| receive_a: "tr_ba s = d # ds \<Longrightarrow> g_running (ys_glob (tr_pub s)) \<Longrightarrow>
    subReturnStoreDataReceived sidA (arrived d) now (tr_file s, ys_glob (tr_pub s)) = Some (f, g) \<Longrightarrow>
    trip_step cb early cyc sidA sidB s
      (s\<lparr>tr_ba := ds, tr_file := f, tr_pub := (tr_pub s)\<lparr>ys_glob := g\<rparr>, tr_arr := tr_arr s @ [(d, now)]\<rparr>)"

definition trip_start :: "trip_sys \<Rightarrow> bool" where
  "trip_start s \<longleftrightarrow>
     ys_sent (tr_pub s) = [] \<and> tx_sequence (ys_glob (tr_pub s)) = - 2 \<and> tr_file s = \<lparr>fp_open = True, fp_lines = []\<rparr> \<and>
     tr_ab s = [] \<and> tr_ba s = [] \<and> tr_arr s = [] \<and> (\<exists>count q. tr_b s = rt_init count q)"

section \<open>What each step keeps\<close>

text \<open>The number and the send time of the first leg.\<close>

definition leg :: "u64 list \<Rightarrow> u64 \<times> u64" where
  "leg d = (d ! 0, d ! 1)"

definition trip_line :: "int \<Rightarrow> u64 list \<times> timespec \<Rightarrow> string" where
  "trip_line sid dt =
     (case dt of (d, t) \<Rightarrow> subr_line sid (d ! 0) (d ! 1) (d ! 2) (d ! 3) (d ! 4) (as_nanoseconds t))"

definition sent_legs :: "pub_sys \<Rightarrow> (u64 \<times> u64) list" where
  "sent_legs y = map (\<lambda>m. leg (snd m)) (ys_sent y)"

definition pub_numbered :: "pub_sys \<Rightarrow> bool" where
  "pub_numbered y \<longleftrightarrow>
     list_all (\<lambda>m. length (snd m) = 2) (ys_sent y) \<and>
     map (\<lambda>m. snd m ! 0) (ys_sent y) = map (\<lambda>k. word_of_int (int k - 1)) [0..<length (ys_sent y)] \<and>
     tx_sequence (ys_glob y) = of_nat (length (ys_sent y)) - 2"

definition trip_inv :: "int \<Rightarrow> trip_sys \<Rightarrow> bool" where
  "trip_inv sidA s \<longleftrightarrow>
     pub_numbered (tr_pub s) \<and> list_all (\<lambda>d. length d = 2) (tr_ab s) \<and>
     subseq (rt_rx (tr_b s) @ map leg (tr_ab s)) (sent_legs (tr_pub s)) \<and>
     channel (tr_b s) \<and>
     list_all (\<lambda>d. length d = 5) (rt_ret (tr_b s)) \<and> subseq (map fst (tr_arr s) @ tr_ba s) (rt_ret (tr_b s)) \<and>
     (g_running (ys_glob (tr_pub s)) \<longrightarrow> fp_open (tr_file s)) \<and>
     fp_lines (tr_file s) = map (trip_line sidA) (tr_arr s)"

lemma pub_sys_cases:
  assumes "publishes_once cb" and "pub_sys_body cb e c now y = Running y'"
  obtains t where "y' = y\<lparr>ys_thr := t\<rparr>"
  | t a where "y' = y\<lparr>ys_thr := t, ys_glob := snd (pubGetDataToTransmit now (ys_glob y)),
                     ys_sent := ys_sent y @ [(a, fst (pubGetDataToTransmit now (ys_glob y)))]\<rparr>"
proof -
  have "cb now t g = ([(t, fst (pubGetDataToTransmit now g))], snd (pubGetDataToTransmit now g))" for t g
    using assms(1) by (simp add: publishes_once_def split_beta)
  then show thesis
    using assms(2) that by (auto simp: pub_sys_body_def Let_def split: if_splits run.splits)
qed

lemma pub_sys_sends:
  assumes "publishes_once cb" and "pub_sys_body cb e c now y = Running y'" and "pub_numbered y"
  shows "pub_numbered y' \<and> (\<exists>new. ys_sent y' = ys_sent y @ new) \<and>
    (g_running (ys_glob y') \<longrightarrow> g_running (ys_glob y))"
proof -
  have d: "fst (pubGetDataToTransmit now g) = [tx_sequence g + 1, as_nanoseconds now]" for g
    by (simp add: pubGetDataToTransmit_def Let_def)
  show ?thesis
    using pub_sys_cases [OF assms(1,2)] assms(3) by cases (auto simp: pub_numbered_def pubGet_keeps d)
qed

lemma rt_ret_grows:
  assumes "rt_step sid b b'" and "list_all (\<lambda>d. length d = 5) (rt_ret b)"
  shows "(\<exists>new. rt_ret b' = rt_ret b @ new) \<and> list_all (\<lambda>d. length d = 5) (rt_ret b')"
  using assms by cases (auto simp: pubr_finish_def split_beta Let_def)

lemma rt_ret_same: "rt_step sid b b' \<Longrightarrow> rt_rx b' \<noteq> rt_rx b \<Longrightarrow> rt_ret b' = rt_ret b"
  by (erule rt_stepE) auto

lemma subReturn_logs:
  assumes "subReturnStoreDataReceived sid (arrived d) now (f, g) = Some (f', g')" and "length d = 5" and "fp_open f"
  shows "fp_lines f' = fp_lines f @ [trip_line sid (d, now)]" and "g_running g' \<longrightarrow> fp_open f'"
    and "tx_sequence g' = tx_sequence g"
proof -
  obtain a b c d' e where d: "d = [a, b, c, d', e]"
    using assms(2) by (auto simp: numeral_eq_Suc length_Suc_conv)
  have "(of_nat (length d) :: u64) = 5" using assms(2) by simp
  then show "fp_lines f' = fp_lines f @ [trip_line sid (d, now)]" and "g_running g' \<longrightarrow> fp_open f'"
    and "tx_sequence g' = tx_sequence g"
    using assms(1,3)
    by (auto simp: subReturnStoreDataReceived_def arrived_def is_empty_variant_def fp_print_def sub_finish_def fp_close_def
        trip_line_def d Let_def split: if_splits)
qed

lemma subseq_del: "subseq (xs @ ys @ d # zs) l \<Longrightarrow> subseq (xs @ ys @ zs) l"
  by (rule subseq_order.trans [rotated]) (auto intro!: list_emb_append_mono)

lemma trip_publish:
  assumes "publishes_once cb" and "pub_sys_body cb e c now (tr_pub s) = Running y" and "trip_inv sid s"
  shows "trip_inv sid (s\<lparr>tr_pub := y, tr_ab := tr_ab s @ map snd (drop (length (ys_sent (tr_pub s))) (ys_sent y))\<rparr>)"
proof -
  have num: "pub_numbered (tr_pub s)"
    using assms(3) by (simp add: trip_inv_def)
  note y = pub_sys_sends [OF assms(1,2) num]
  then obtain new where new: "ys_sent y = ys_sent (tr_pub s) @ new" by blast
  have "list_all (\<lambda>m. length (snd m) = 2) (ys_sent y)"
    using y by (simp add: pub_numbered_def)
  with new have "list_all (\<lambda>d. length d = 2) (map snd new)"
    by (simp add: list.pred_map comp_def)
  then show ?thesis
    using assms(3) y new
    by (auto simp: trip_inv_def sent_legs_def comp_def list_emb_append_mono simp flip: append_assoc)
qed

lemma rx_of_arrived: "length d = 2 \<Longrightarrow> rx_of (arrived d) = [leg d]"
  by (auto simp: rx_of_def arrived_def leg_def numeral_2_eq_2 length_Suc_conv)

lemma trip_keeps:
  assumes "publishes_once cb" and "trip_step cb e c sidA sidB s s'" and "trip_inv sidA s"
  shows "trip_inv sidA s'"
  using assms(2)
proof cases
  case (publish now y)
  then show ?thesis using trip_publish [OF assms(1) _ assms(3)] by simp
next
  case (lose_ab ds d ds')
  then show ?thesis
    using assms(3) subseq_del [of "rt_rx (tr_b s)" "map leg ds" "leg d" "map leg ds'"] by (simp add: trip_inv_def)
next
  case (receive_b d ds b)
  have "rx_of (arrived d) = [leg d]"
    using assms(3) receive_b(2) by (simp add: trip_inv_def rx_of_arrived)
  then have ret: "rt_ret b = rt_ret (tr_b s)"
    using receive_b(4) by (intro rt_ret_same [OF receive_b(3)]) simp
  then show ?thesis
    using assms(3) receive_b rt_channel.keeps [OF receive_b(3)]
    by (simp add: trip_inv_def rx_of_arrived)
next
  case (return_b b)
  then show ?thesis
    using assms(3) rt_channel.keeps [OF return_b(2)] rt_ret_grows [OF return_b(2)]
    by (auto simp: trip_inv_def list_emb_append_mono simp flip: append_assoc)
next
  case (lose_ba ds d ds')
  then show ?thesis
    using assms(3) subseq_del [of "map fst (tr_arr s)" ds d ds'] by (simp add: trip_inv_def)
next
  case (receive_a d ds now f g)
  have "d \<in> set (rt_ret (tr_b s))"
    using assms(3) receive_a(2) by (auto simp: trip_inv_def dest: subseq_order.trans list_emb_set)
  then have "length d = 5"
    using assms(3) by (auto simp: trip_inv_def list_all_iff)
  with receive_a show ?thesis
    using assms(3) subReturn_logs [OF receive_a(4)] by (auto simp: trip_inv_def pub_numbered_def sent_legs_def)
qed

lemma subReturn_total:
  assumes "length d = 5"
  shows "\<exists>f' g'. subReturnStoreDataReceived sid (arrived d) now (f, g) = Some (f', g')"
proof -
  obtain a b c d' e where "d = [a, b, c, d', e]"
    using assms by (auto simp: numeral_eq_Suc length_Suc_conv)
  then show ?thesis
    by (simp add: subReturnStoreDataReceived_def arrived_def is_empty_variant_def sub_finish_def Let_def)
qed

interpretation trip: step_invariant "\<lambda>s s'. publishes_once cb \<and> trip_step cb e c sidA sidB s s'" "trip_inv sidA"
  for cb e c sidA sidB
  by unfold_locales (blast intro: trip_keeps)

lemma rt_init_fields: "rt_rx (rt_init count q) = []" "rt_ret (rt_init count q) = []"
  by (simp_all add: rt_init_def)

lemma trip_inv_start: "trip_start s \<Longrightarrow> trip_inv sid s"
  by (auto simp: trip_start_def trip_inv_def pub_numbered_def sent_legs_def channel_start rt_init_fields)

lemma returned_legs: "returned ds = map leg (filter (\<lambda>d. \<not> is_error (d ! 0)) ds)"
  by (simp add: returned_def leg_def)

lemma returned_subseq: "subseq ds ds' \<Longrightarrow> subseq (returned ds) (returned ds')"
  unfolding returned_legs by (intro subseq_map subseq_filter)

section \<open>How the measurement ends\<close>

text \<open>A packet that tells server A that the measurement is complete.\<close>

definition ends :: "u64 \<Rightarrow> u64 list \<Rightarrow> bool" where
  "ends count d \<longleftrightarrow> \<not> is_error (d ! 0) \<and> count \<le> d ! 0"

definition end_inv :: "u64 \<Rightarrow> trip_sys \<Rightarrow> bool" where
  "end_inv count s \<longleftrightarrow>
     packetCount (ys_glob (tr_pub s)) = count \<and>
     (g_running (ys_glob (tr_pub s)) \<longrightarrow> fp_open (tr_file s)) \<and>
     (\<forall>k < length (tr_arr s). ends count (fst (tr_arr s ! k)) \<longrightarrow>
        Suc k = length (tr_arr s) \<and> \<not> g_running (ys_glob (tr_pub s)) \<and> \<not> fp_open (tr_file s))"

lemma subReturn_ends:
  assumes "subReturnStoreDataReceived sid (arrived d) now (f, g) = Some (f', g')" and "length d = 5" and "fp_open f"
  shows "packetCount g' = packetCount g" and "fp_open f' \<longleftrightarrow> \<not> ends (packetCount g) d"
    and "ends (packetCount g) d \<Longrightarrow> \<not> g_running g'"
proof -
  obtain a b c d' e where d: "d = [a, b, c, d', e]"
    using assms(2) by (auto simp: numeral_eq_Suc length_Suc_conv)
  show "packetCount g' = packetCount g" and "fp_open f' \<longleftrightarrow> \<not> ends (packetCount g) d"
    and "ends (packetCount g) d \<Longrightarrow> \<not> g_running g'"
    using assms(1,3)
    by (auto simp: subReturnStoreDataReceived_def arrived_def is_empty_variant_def fp_print_def sub_finish_def fp_close_def
        ends_def d Let_def split: if_splits)
qed

lemma pub_sys_globals:
  assumes "publishes_once cb" and "pub_sys_body cb e c now y = Running y'"
  shows "packetCount (ys_glob y') = packetCount (ys_glob y) \<and> (g_running (ys_glob y') \<longrightarrow> g_running (ys_glob y))"
  using pub_sys_cases [OF assms] by cases (simp_all add: pubGet_keeps)

lemma end_keeps:
  assumes "publishes_once cb" and "trip_step cb e c sidA sidB s s'" and "trip_inv sidA s" and "end_inv count s"
  shows "end_inv count s'"
  using assms(2)
proof cases
  case (publish now y)
  then show ?thesis
    using assms(4) pub_sys_globals [OF assms(1) publish(2)] by (auto simp: end_inv_def)
next
  case (receive_a d ds now f g)
  have "d \<in> set (rt_ret (tr_b s))"
    using assms(3) receive_a(2) by (auto simp: trip_inv_def dest: subseq_order.trans list_emb_set)
  then have len: "length d = 5"
    using assms(3) by (auto simp: trip_inv_def list_all_iff)
  have opened: "fp_open (tr_file s)" and count: "packetCount (ys_glob (tr_pub s)) = count"
    and no_end: "\<forall>k < length (tr_arr s). \<not> ends count (fst (tr_arr s ! k))"
    using assms(4) receive_a(3) by (auto simp: end_inv_def)
  note e = subReturn_ends [OF receive_a(4) len opened, unfolded count]
  have "\<not> fp_open f \<longrightarrow> \<not> g_running g"
    using e by auto
  then show ?thesis
    unfolding receive_a(1) end_inv_def using e no_end by (auto simp: nth_append less_Suc_eq)
qed (use assms(4) in \<open>auto simp: end_inv_def\<close>)

interpretation trip_end: step_invariant "\<lambda>s s'. publishes_once cb \<and> trip_step cb e c sidA sidB s s'"
    "\<lambda>s. trip_inv sidA s \<and> end_inv count s"
  for cb e c sidA sidB count
  by unfold_locales (blast intro: trip_keeps end_keeps)

lemma end_inv_start: "trip_start s \<Longrightarrow> end_inv (packetCount (ys_glob (tr_pub s))) s"
  by (auto simp: trip_start_def end_inv_def)

lemma stopped_step:
  assumes "publishes_once cb" and "trip_step cb e c sidA sidB s s'" and "\<not> g_running (ys_glob (tr_pub s))"
  shows "\<not> g_running (ys_glob (tr_pub s')) \<and> tr_file s' = tr_file s"
  using assms(2)
proof cases
  case (publish now y)
  then show ?thesis using pub_sys_globals [OF assms(1) publish(2)] assms(3) by simp
qed (use assms(3) in auto)

text \<open>One packet, the first, all the way round: it is logged, and it ends the measurement.\<close>

definition ex_trip :: trip_sys where
  "ex_trip =
     \<lparr>tr_pub = \<lparr>ys_thr = pub_start False ex_server zero_pub (Timespec 12 0), ys_glob = ds_init 1000 (- 1) True, ys_sent = []\<rparr>,
      tr_file = \<lparr>fp_open = True, fp_lines = []\<rparr>, tr_ab = [], tr_b = rt_init 1000 7, tr_ba = [], tr_arr = []\<rparr>"

lemma ex_trip_run:
  "\<exists>s d t. (trip_step ex_publish 0 1000000 1 2)\<^sup>*\<^sup>* ex_trip s \<and> tr_arr s = [(d, t)] \<and> d ! 0 = - 1 \<and>
     length (ys_sent (tr_pub s)) = 1"
proof -
  let ?step = "trip_step ex_publish 0 1000000 1 2"
  have cb: "publishes_once ex_publish" by (simp add: publishes_once_def ex_publish_def)
  define y where "y = run_state (pub_sys_body ex_publish 0 1000000 (Timespec 25 1) (tr_pub ex_trip))"
  have y: "pub_sys_body ex_publish 0 1000000 (Timespec 25 1) (tr_pub ex_trip) = Running y"
    "map snd (ys_sent y) = [[- 1, 25000000001]]" "g_running (ys_glob y)"
    by (simp_all add: y_def ex_trip_def pub_sys_body_def pub_body_def ds_init_def ex_publish_def
        pubGetDataToTransmit_def as_nanoseconds_def Let_def)
  have "forwardable \<lparr>mq_sequence = - 1, mq_txTime = 25000000001, mq_rxTime = as_nanoseconds (Timespec 25 6)\<rparr> (ds_init 1000 7 False)"
    by (simp add: forwardable_def ds_init_def as_nanoseconds_def is_error_def ERROR_DUPLICATE_def ERROR_MSGQ_COPY_def
        ERROR_NOTHING_TO_FORWARD_def)
  from rt_one_packet [OF refl this, of 2] obtain b1 b2 b3 b4 d
    where st: "rt_step 2 (rt_init 1000 7) b1" "rt_step 2 b1 b2" "rt_step 2 b2 b3" "rt_step 2 b3 b4"
      and rx: "rt_rx b1 = [(- 1, 25000000001)]" "rt_rx b2 = rt_rx b1" "rt_rx b3 = rt_rx b2" "rt_rx b4 = rt_rx b3"
      and ret: "rt_ret b1 = []" "rt_ret b2 = []" "rt_ret b3 = []" "rt_ret b4 = [d]" and number: "d ! 0 = - 1" by auto
  define s1 where "s1 = ex_trip\<lparr>tr_pub := y, tr_ab := [[- 1, 25000000001]]\<rparr>"
  have t1: "?step ex_trip s1"
    using publish [of ex_publish 0 1000000 "Timespec 25 1" ex_trip y 1 2] y by (simp add: s1_def ex_trip_def)
  define s2 where "s2 = s1\<lparr>tr_ab := [], tr_b := b1\<rparr>"
  have t2: "?step s1 s2"
    using receive_b [of s1 "[- 1, 25000000001]" "[]" 2 b1] st(1) rx(1)
    by (simp add: s1_def s2_def ex_trip_def rt_init_def rx_of_arrived leg_def)
  have t3: "?step s2 (s2\<lparr>tr_b := b2\<rparr>)"
    using return_b [of 2 s2 b2] st(2) rx(2) ret by (simp add: s2_def s1_def ex_trip_def)
  have t4: "?step (s2\<lparr>tr_b := b2\<rparr>) (s2\<lparr>tr_b := b3\<rparr>)"
    using return_b [of 2 "s2\<lparr>tr_b := b2\<rparr>" b3] st(3) rx(3) ret by (simp add: s2_def s1_def ex_trip_def)
  define s5 where "s5 = s2\<lparr>tr_b := b4, tr_ba := [d]\<rparr>"
  have t5: "?step (s2\<lparr>tr_b := b3\<rparr>) s5"
    using return_b [of 2 "s2\<lparr>tr_b := b3\<rparr>" b4] st(4) rx(4) ret by (simp add: s5_def s2_def s1_def ex_trip_def)
  have reach5: "?step\<^sup>*\<^sup>* ex_trip s5"
    using t1 t2 t3 t4 t5 by (meson converse_rtranclp_into_rtranclp rtranclp.rtrancl_refl)
  have "length d = 5"
    using rt_ret_grows [OF st(4)] ret by simp
  then obtain f g where "subReturnStoreDataReceived 1 (arrived d) (Timespec 25 9) (tr_file s5, ys_glob (tr_pub s5)) = Some (f, g)"
    using subReturn_total [of d 1 "Timespec 25 9"] by blast
  from receive_a [OF _ _ this] obtain s6 where t6: "?step s5 s6" "tr_arr s6 = [(d, Timespec 25 9)]"
    and pub: "ys_sent (tr_pub s6) = ys_sent y"
    using y(3) by (fastforce simp: s5_def s2_def s1_def ex_trip_def)
  have "?step\<^sup>*\<^sup>* ex_trip s6"
    using reach5 t6(1) by simp
  moreover have "length (ys_sent y) = 1"
    using y(2) by (metis length_map length_Cons list.size(3) One_nat_def)
  ultimately show ?thesis
    using t6(2) pub number by auto
qed

lemma ex_trip_start: "trip_start ex_trip"
  by (auto simp: trip_start_def ex_trip_def ds_init_def)

lemma ex_publish_once: "publishes_once ex_publish"
  by (simp add: publishes_once_def ex_publish_def)

section \<open>Properties\<close>

text \<open>
  C4: the round trip from end to end. However the four threads of the two servers interleave and
  whatever is lost on the two paths between them, the file of server A holds one line for each
  packet that came back, in order; the lines that are not marked as errors carry the number
  and the send time of a packet that A has published, each at most once and in the order of
  publication; the numbers published are -1, 0, 1, \<dots> without a gap.
\<close>

theorem trip_logs_sent_packets:
  assumes "publishes_once cb" and "trip_start s0" and "(trip_step cb early cyc sidA sidB)\<^sup>*\<^sup>* s0 s"
  shows "fp_lines (tr_file s) =
           map (\<lambda>(d, t). subr_line sidA (d ! 0) (d ! 1) (d ! 2) (d ! 3) (d ! 4) (as_nanoseconds t)) (tr_arr s) \<and>
         subseq (map (\<lambda>d. (d ! 0, d ! 1)) (filter (\<lambda>d. \<not> is_error (d ! 0)) (map fst (tr_arr s))))
           (map (\<lambda>m. (snd m ! 0, snd m ! 1)) (ys_sent (tr_pub s))) \<and>
         map (\<lambda>m. snd m ! 0) (ys_sent (tr_pub s)) = map (\<lambda>k. word_of_int (int k - 1)) [0..<length (ys_sent (tr_pub s))]"
proof -
  have "(\<lambda>s s'. publishes_once cb \<and> trip_step cb early cyc sidA sidB s s')\<^sup>*\<^sup>* s0 s"
    using assms(1,3) by simp
  then have inv: "trip_inv sidA s"
    by (rule trip.inv_reach) (rule trip_inv_start [OF assms(2)])
  have "subseq (map fst (tr_arr s)) (rt_ret (tr_b s))"
    using inv by (auto simp: trip_inv_def intro: subseq_order.trans list_emb_prefix)
  then have "subseq (returned (map fst (tr_arr s))) (returned (rt_ret (tr_b s)))"
    by (rule returned_subseq)
  also have "subseq \<dots> (rt_rx (tr_b s))"
    using inv by (intro channel_returned) (simp add: trip_inv_def)
  also have "subseq \<dots> (sent_legs (tr_pub s))"
    using inv by (auto simp: trip_inv_def intro: subseq_order.trans [rotated] list_emb_prefix)
  finally show ?thesis
    using inv by (simp add: trip_inv_def trip_line_def returned_legs leg_def sent_legs_def pub_numbered_def cong: map_cong)
qed

theorem trip_logs_sent_packets_witness:
  "\<exists>s. (trip_step ex_publish 0 1000000 1 2)\<^sup>*\<^sup>* ex_trip s \<and> length (fp_lines (tr_file s)) = 1 \<and>
     map (\<lambda>m. snd m ! 0) (ys_sent (tr_pub s)) = [- 1]"
proof -
  obtain s d t where "(trip_step ex_publish 0 1000000 1 2)\<^sup>*\<^sup>* ex_trip s" "tr_arr s = [(d, t)]" "length (ys_sent (tr_pub s)) = 1"
    using ex_trip_run by blast
  with trip_logs_sent_packets [OF ex_publish_once ex_trip_start, of 0 1000000 1 2 s] show ?thesis by auto
qed

text \<open>
  C30: the end of a round trip. The packet with a number that has reached the count is the last
  one that server A logs, because it closes the file and stops the server, and no later step
  adds a line. The numbers are compared without sign, so that this packet is already the first
  one published, with the number -1, when it is not lost on the way.
\<close>

theorem trip_ends:
  assumes "publishes_once cb" and "trip_start s0" and "(trip_step cb early cyc sidA sidB)\<^sup>*\<^sup>* s0 s"
    and "k < length (tr_arr s)" and "d = fst (tr_arr s ! k)" and "\<not> is_error (d ! 0)"
    and "d ! 0 = - 1 \<or> packetCount (ys_glob (tr_pub s0)) \<le> d ! 0"
    and "(trip_step cb early cyc sidA sidB)\<^sup>*\<^sup>* s s'"
  shows "Suc k = length (tr_arr s) \<and> \<not> g_running (ys_glob (tr_pub s')) \<and> \<not> fp_open (tr_file s') \<and>
         fp_lines (tr_file s') = fp_lines (tr_file s)"
proof -
  let ?n = "packetCount (ys_glob (tr_pub s0))"
  have "?n \<le> d ! 0"
    using assms(7) by auto
  then have e: "ends ?n (fst (tr_arr s ! k))"
    using assms(5,6) by (simp add: ends_def)
  have "(\<lambda>s s'. publishes_once cb \<and> trip_step cb early cyc sidA sidB s s')\<^sup>*\<^sup>* s0 s"
    using assms(1,3) by simp
  then have "trip_inv sidA s \<and> end_inv ?n s"
    by (rule trip_end.inv_reach) (simp add: trip_inv_start end_inv_start assms(2))
  then have "Suc k = length (tr_arr s)" and "\<not> g_running (ys_glob (tr_pub s))" and "\<not> fp_open (tr_file s)"
    using e assms(4) by (auto simp: end_inv_def)
  moreover from assms(8) this(2,3) have "\<not> g_running (ys_glob (tr_pub s')) \<and> tr_file s' = tr_file s"
  proof (induction rule: rtranclp_induct)
    case (step t u)
    then show ?case using stopped_step [OF assms(1) step(2)] by simp
  qed simp
  ultimately show ?thesis by simp
qed

theorem trip_ends_witness:
  "\<exists>s d t. (trip_step ex_publish 0 1000000 1 2)\<^sup>*\<^sup>* ex_trip s \<and> tr_arr s = [(d, t)] \<and> d ! 0 = - 1 \<and>
     packetCount (ys_glob (tr_pub ex_trip)) = 1000 \<and> \<not> g_running (ys_glob (tr_pub s)) \<and> \<not> fp_open (tr_file s)"
proof -
  obtain s d t where s: "(trip_step ex_publish 0 1000000 1 2)\<^sup>*\<^sup>* ex_trip s" "tr_arr s = [(d, t)]" "d ! 0 = - 1"
    using ex_trip_run by blast
  have "\<not> is_error (- 1)"
    by (simp add: is_error_def ERROR_DUPLICATE_def ERROR_MSGQ_COPY_def ERROR_NOTHING_TO_FORWARD_def)
  then have "\<not> is_error (d ! 0)" using s(3) by simp
  have "Suc 0 = length (tr_arr s) \<and> \<not> g_running (ys_glob (tr_pub s)) \<and> \<not> fp_open (tr_file s) \<and>
      fp_lines (tr_file s) = fp_lines (tr_file s)"
  proof (rule trip_ends [OF ex_publish_once ex_trip_start s(1)])
    show "\<not> is_error (d ! 0)" by fact
    show "0 < length (tr_arr s)" and "d = fst (tr_arr s ! 0)" using s(2) by simp_all
    show "d ! 0 = - 1 \<or> packetCount (ys_glob (tr_pub ex_trip)) \<le> d ! 0" using s(3) by (rule disjI1)
  qed (rule rtranclp.rtrancl_refl)
  moreover have "packetCount (ys_glob (tr_pub ex_trip)) = 1000"
    by (simp add: ex_trip_def ds_init_def)
  ultimately show ?thesis using s by blast
qed

end
