(* ===== verification/Opcua_Server.thy ===== *)
theory Opcua_Server
  imports Opcua_Custom Log_Files
begin

text \<open>
  \<^verbatim>\<open>src/opcua-tsn/opcua_publish.c\<close>, \<^verbatim>\<open>opcua_subscribe.c\<close> and \<^verbatim>\<open>multicallback_server.c\<close>: how the
  server is put together from the configuration, run and taken down.

  The OPC UA library is not part of the repository. The calls made to it are recorded in order,
  each with the part of its configuration that depends on the program's data; \<open>newid k\<close> is the
  node identifier the library returns for the k-th object it is asked to make, \<open>rnd\<close> the random
  number it gives. Which callbacks it registers is an argument of \<open>opcua_main\<close>.
\<close>

section \<open>Calls of the library\<close>

record conn_config =
  cc_interface :: "string option"
  cc_url :: "string option"
  cc_socketPriority :: int
  cc_sotxtime :: bool
  cc_xdp_queue :: int
  cc_xdp_flags :: u32
  cc_xdp_bind_flags :: u32
  cc_publisherId :: u32

datatype 'n ua_call =
    Add_connection conn_config 'n
  | Add_dataset 'n
  | Add_source_node string ds_func ds_func
  | Add_field 'n string 'n
  | Add_writer_group 'n int u16 'n
  | Set_operational 'n
  | Add_writer 'n 'n u16 u32 'n
  | Freeze_writer_group 'n
  | Add_reader_group 'n 'n
  | Add_reader 'n u16 u16 u16 'n
  | Create_targets 'n string

record 'n srv =
  sv_calls :: "'n ua_call list"
  sv_ids :: nat
  sv_writerGroup :: 'n

text \<open>A call, and a call that makes an object and yields its identifier.\<close>

definition ua_do :: "'n ua_call \<Rightarrow> 'n srv \<Rightarrow> 'n srv" where
  "ua_do c s = s\<lparr>sv_calls := sv_calls s @ [c]\<rparr>"

definition ua_new :: "(nat \<Rightarrow> 'n) \<Rightarrow> ('n \<Rightarrow> 'n ua_call) \<Rightarrow> 'n srv \<Rightarrow> 'n \<times> 'n srv" where
  "ua_new newid c s = (newid (sv_ids s), s\<lparr>sv_calls := sv_calls s @ [c (newid (sv_ids s))], sv_ids := sv_ids s + 1\<rparr>)"

definition KEYFRAME_COUNT :: u32 where "KEYFRAME_COUNT = 10"

section \<open>Publishers\<close>

definition pub_conn_config :: "bool \<Rightarrow> server_data \<Rightarrow> publisher_data \<Rightarrow> conn_config" where
  "pub_conn_config xdptbs sd p =
     \<lparr>cc_interface = s_pubInterface sd, cc_url = pd_url p,
      cc_socketPriority = (if pd_socketPriority p > 0 then pd_socketPriority p else - 1),
      cc_sotxtime = (xdptbs \<or> \<not> s_useXDP sd),
      cc_xdp_queue = (if s_useXDP sd then pd_xdpQueue p else 0),
      cc_xdp_flags = (if s_useXDP sd then XDP_FLAGS_DRV_MODE else 0),
      cc_xdp_bind_flags = (if s_useXDP_ZC sd then XDP_ZEROCOPY else XDP_COPY),
      cc_publisherId = ucast (word_of_int (pd_id p) :: u16)\<rparr>"

definition addPubSubConnection ::
  "(nat \<Rightarrow> 'n) \<Rightarrow> bool \<Rightarrow> server_data \<Rightarrow> publisher_data \<Rightarrow> 'n srv \<Rightarrow> 'n \<times> 'n srv" where
  "addPubSubConnection newid xdptbs sd p s = ua_new newid (Add_connection (pub_conn_config xdptbs sd p)) s"

definition addPublishedDataSet :: "(nat \<Rightarrow> 'n) \<Rightarrow> 'n srv \<Rightarrow> 'n \<times> 'n srv" where
  "addPublishedDataSet newid s = ua_new newid Add_dataset s"

definition addDataSetField :: "(nat \<Rightarrow> 'n) \<Rightarrow> 'n \<Rightarrow> publisher_data \<Rightarrow> 'n srv \<Rightarrow> 'n srv" where
  "addDataSetField newid publishedDataSetIdent p s =
     (let s1 = ua_do (Add_source_node ''payload-datasource'' (pd_readFunc p) (pd_writeFunc p)) s
      in snd (ua_new newid (Add_field publishedDataSetIdent ''payload-datasource'') s1))"

text \<open>
  The interval is passed in milliseconds, \<^verbatim>\<open>cycleTimeNs / 1e6\<close>; the cycle time stands for it. The
  identifier is written to \<^verbatim>\<open>g_writerGroupIdent\<close>.
\<close>

definition addWriterGroup :: "(nat \<Rightarrow> 'n) \<Rightarrow> 'n \<Rightarrow> server_data \<Rightarrow> publisher_data \<Rightarrow> 'n srv \<Rightarrow> 'n srv" where
  "addWriterGroup newid connectionIdent sd p s =
     (let (wg, s1) = ua_new newid (Add_writer_group connectionIdent (s_cycleTimeNs sd) (word_of_int (pd_writerGroupId p))) s;
          s2 = s1\<lparr>sv_writerGroup := wg\<rparr>
      in ua_do (Set_operational (sv_writerGroup s2)) s2)"

definition addDataSetWriter :: "(nat \<Rightarrow> 'n) \<Rightarrow> 'n \<Rightarrow> 'n \<Rightarrow> publisher_data \<Rightarrow> 'n srv \<Rightarrow> 'n srv" where
  "addDataSetWriter newid writerGroupIdent publishedDataSetIdent p s =
     snd (ua_new newid (Add_writer writerGroupIdent publishedDataSetIdent (word_of_int (pd_dataSetWriterId p)) KEYFRAME_COUNT) s)"

definition createPublisher :: "(nat \<Rightarrow> 'n) \<Rightarrow> server_data \<Rightarrow> publisher_data \<Rightarrow> 'n \<Rightarrow> 'n srv \<Rightarrow> int \<times> 'n srv" where
  "createPublisher newid sd p connectionIdent s =
     (let (ds, s1) = addPublishedDataSet newid s;
          s2 = addDataSetField newid ds p s1;
          s3 = addWriterGroup newid connectionIdent sd p s2;
          s4 = addDataSetWriter newid (sv_writerGroup s3) ds p s3
      in (0, ua_do (Freeze_writer_group (sv_writerGroup s4)) s4))"

section \<open>Subscribers\<close>

definition sub_conn_config :: "u32 \<Rightarrow> server_data \<Rightarrow> subscriber_data \<Rightarrow> conn_config" where
  "sub_conn_config rnd sd d =
     \<lparr>cc_interface = s_subInterface sd, cc_url = sd_url d, cc_socketPriority = 0, cc_sotxtime = False,
      cc_xdp_queue = (if s_useXDP sd then sd_xdpQueue d else 0),
      cc_xdp_flags =
        (if \<not> s_useXDP sd then 0 else if s_useXDP_SKB sd \<and> \<not> s_useXDP_ZC sd then XDP_FLAGS_SKB_MODE
         else if \<not> s_useXDP_SKB sd \<and> \<not> s_useXDP_ZC sd then XDP_FLAGS_DRV_MODE else XDP_FLAGS_DRV_MODE),
      cc_xdp_bind_flags =
        (if \<not> s_useXDP sd then 0 else if s_useXDP_SKB sd \<and> \<not> s_useXDP_ZC sd then XDP_COPY
         else if \<not> s_useXDP_SKB sd \<and> \<not> s_useXDP_ZC sd then XDP_COPY else XDP_ZEROCOPY),
      cc_publisherId = (if sd_id d = 0 then rnd else word_of_int (sd_id d))\<rparr>"

definition addSubConnection ::
  "(nat \<Rightarrow> 'n) \<Rightarrow> u32 \<Rightarrow> server_data \<Rightarrow> subscriber_data \<Rightarrow> 'n srv \<Rightarrow> 'n \<times> 'n srv" where
  "addSubConnection newid rnd sd d s = ua_new newid (Add_connection (sub_conn_config rnd sd d)) s"

definition addReaderGroup :: "(nat \<Rightarrow> 'n) \<Rightarrow> 'n \<Rightarrow> 'n srv \<Rightarrow> 'n \<times> 'n srv" where
  "addReaderGroup newid connId s = ua_new newid (Add_reader_group connId) s"

text \<open>The writer, publisher and writer group whose messages are read, each as a 16-bit number.\<close>

definition addDataSetReader :: "(nat \<Rightarrow> 'n) \<Rightarrow> 'n \<Rightarrow> subscriber_data \<Rightarrow> 'n srv \<Rightarrow> 'n \<times> 'n srv" where
  "addDataSetReader newid rg d s =
     ua_new newid (Add_reader rg (word_of_int (sd_subscribedDSWriterId d)) (word_of_int (sd_subscribedPubId d))
                     (word_of_int (sd_subscribedWGId d))) s"

definition addSubscribedVariables :: "bool \<Rightarrow> subscriber_data \<Rightarrow> 'n \<Rightarrow> 'n srv \<Rightarrow> 'n srv" where
  "addSubscribedVariables calloc_ok d reader s =
     (let s1 = ua_do (Add_source_node ''time-stamp-datasource'' (sd_readFunc d) (sd_writeFunc d)) s
      in if \<not> calloc_ok then s1 else ua_do (Create_targets reader ''time-stamp-datasource'') s1)"

definition createSubscriber ::
  "(nat \<Rightarrow> 'n) \<Rightarrow> bool \<Rightarrow> subscriber_data \<Rightarrow> 'n \<Rightarrow> 'n srv \<Rightarrow> int \<times> 'n srv" where
  "createSubscriber newid calloc_ok d connId s =
     (let (rg, s1) = addReaderGroup newid connId s;
          (rd, s2) = addDataSetReader newid rg d s1
      in (0, addSubscribedVariables calloc_ok d rd s2))"

section \<open>configureServer\<close>

text \<open>\<open>mq\<close> is what \<^verbatim>\<open>msgget\<close> answers for each returning publisher; the second result is the round-trip flag.\<close>

fun configure_pubs :: "int list \<Rightarrow> publisher_data list \<Rightarrow> int \<times> bool \<Rightarrow> publisher_data list \<times> int \<times> bool" where
  "configure_pubs mq [] (q, ret) = ([], q, ret)"
| "configure_pubs mq (p # ps) (q, ret) =
     (if \<not> pd_twoWayData p
      then let (ps', r) = configure_pubs mq ps (q, ret)
           in (p\<lparr>pd_writeFunc := Dummy_write, pd_readFunc := Pub_get\<rparr> # ps', r)
      else let (ps', r) = configure_pubs (tl mq) ps (if mq = [] then - 1 else hd mq, False)
           in (p\<lparr>pd_writeFunc := Dummy_write, pd_readFunc := PubReturn_get\<rparr> # ps', r))"

definition configure_sub :: "subscriber_data \<Rightarrow> subscriber_data" where
  "configure_sub d =
     d\<lparr>sd_readFunc := Dummy_read, sd_writeFunc := (if \<not> sd_twoWayData d then Sub_store else SubReturn_store)\<rparr>"

definition pubs_of :: "server_data \<Rightarrow> publisher_data list" where
  "pubs_of sd = (case s_pubData sd of Some ps \<Rightarrow> ps | None \<Rightarrow> [])"

definition subs_of :: "server_data \<Rightarrow> subscriber_data list" where
  "subs_of sd = (case s_subData sd of Some ds \<Rightarrow> ds | None \<Rightarrow> [])"

text \<open>\<open>clock\<close> is the second \<^verbatim>\<open>clock_gettime\<close> gives, if it succeeds; \<open>None\<close> is the return value -1.\<close>

definition configureServer :: "int option \<Rightarrow> int list \<Rightarrow> server_data \<Rightarrow> (server_data \<times> bool) option" where
  "configureServer clock mq sd =
     (case clock of
        None \<Rightarrow> None
      | Some sec \<Rightarrow>
          let (ps, q, ret) = configure_pubs mq (pubs_of sd) (- 1, True)
          in Some (sd\<lparr>s_startTime := word_of_int ((sec + 3) * 1000000000), s_msqid := q,
                      s_pubData := Some ps, s_subData := Some (map configure_sub (subs_of sd))\<rparr>, ret))"

section \<open>setupOpcuaServer\<close>

datatype layer = Layer_XDP | Layer_ETF

text \<open>The transport layers: the two that are allocated, and the size the library is told.\<close>

record 'n setup_st =
  su_srv :: "'n srv"
  su_conn :: 'n
  su_layers :: "layer option list"
  su_size :: nat

fun add_publishers :: "(nat \<Rightarrow> 'n) \<Rightarrow> bool \<Rightarrow> server_data \<Rightarrow> publisher_data list \<Rightarrow> 'n setup_st \<Rightarrow> 'n setup_st option" where
  "add_publishers newid xdptbs sd [] st = Some st"
| "add_publishers newid xdptbs sd (p # ps) st =
     (let (conn, s1) = addPubSubConnection newid xdptbs sd p (su_srv st);
          (ret, s2) = createPublisher newid sd p conn s1
      in if ret = - 1 then None
         else add_publishers newid xdptbs sd ps (st\<lparr>su_srv := s2, su_conn := conn\<rparr>))"

text \<open>\<open>pub\<close> is the publisher the variable of that name is left at, the last; without one it is not read.\<close>

definition shares_layer :: "server_data \<Rightarrow> publisher_data option \<Rightarrow> subscriber_data \<Rightarrow> bool" where
  "shares_layer sd pub d \<longleftrightarrow>
     (case pub of
        None \<Rightarrow> False
      | Some p \<Rightarrow> s_useXDP sd \<and> sd_xdpQueue d = pd_xdpQueue p \<and> s_pubInterface sd = s_subInterface sd)"

definition new_layer :: "layer \<Rightarrow> 'n setup_st \<Rightarrow> 'n setup_st" where
  "new_layer l st = st\<lparr>su_layers := (su_layers st)[1 := Some l], su_size := su_size st + 1\<rparr>"

definition connect_sub :: "(nat \<Rightarrow> 'n) \<Rightarrow> u32 \<Rightarrow> server_data \<Rightarrow> subscriber_data \<Rightarrow> 'n setup_st \<Rightarrow> 'n setup_st" where
  "connect_sub newid rnd sd d st =
     (let (conn, s1) = addSubConnection newid rnd sd d (su_srv st) in st\<lparr>su_srv := s1, su_conn := conn\<rparr>)"

definition attach_subscriber ::
  "(nat \<Rightarrow> 'n) \<Rightarrow> u32 \<Rightarrow> server_data \<Rightarrow> publisher_data option \<Rightarrow> subscriber_data \<Rightarrow> 'n setup_st \<Rightarrow> 'n setup_st" where
  "attach_subscriber newid rnd sd pub d st =
     (if shares_layer sd pub d then st
      else if pub \<noteq> None \<and> s_useXDP sd then connect_sub newid rnd sd d (new_layer Layer_XDP st)
      else if pub \<noteq> None then connect_sub newid rnd sd d (new_layer Layer_ETF st)
      else connect_sub newid rnd sd d st)"

text \<open>Each subscriber comes with the random number and whether the allocation of its targets succeeds.\<close>

fun add_subscribers ::
  "(nat \<Rightarrow> 'n) \<Rightarrow> server_data \<Rightarrow> publisher_data option \<Rightarrow> (subscriber_data \<times> u32 \<times> bool) list \<Rightarrow> 'n setup_st \<Rightarrow> 'n setup_st option" where
  "add_subscribers newid sd pub [] st = Some st"
| "add_subscribers newid sd pub ((d, rnd, calloc_ok) # ds) st =
     (let st1 = attach_subscriber newid rnd sd pub d st;
          (ret, s2) = createSubscriber newid calloc_ok d (su_conn st1) (su_srv st1)
      in if ret = - 1 then None else add_subscribers newid sd pub ds (st1\<lparr>su_srv := s2\<rparr>))"

definition setup_start :: "'n \<Rightarrow> server_data \<Rightarrow> 'n setup_st" where
  "setup_start null sd =
     \<lparr>su_srv = \<lparr>sv_calls = [], sv_ids = 0, sv_writerGroup = null\<rparr>, su_conn = null,
      su_layers = [Some (if s_useXDP sd then Layer_XDP else Layer_ETF), None], su_size = 1\<rparr>"

text \<open>\<open>rs k\<close> is the answer of the library and of the allocator for the k-th subscriber.\<close>

definition with_answers :: "(nat \<Rightarrow> u32 \<times> bool) \<Rightarrow> server_data \<Rightarrow> (subscriber_data \<times> u32 \<times> bool) list" where
  "with_answers rs sd = zip (subs_of sd) (map rs [0..<length (subs_of sd)])"

definition setupOpcuaServer ::
  "(nat \<Rightarrow> 'n) \<Rightarrow> 'n \<Rightarrow> bool \<Rightarrow> bool \<Rightarrow> (nat \<Rightarrow> u32 \<times> bool) \<Rightarrow> server_data \<Rightarrow> 'n setup_st option" where
  "setupOpcuaServer newid null xdptbs calloc_ok rs sd =
     (if \<not> calloc_ok then None
      else
        let ps = pubs_of sd
        in case add_publishers newid xdptbs sd ps (setup_start null sd) of
             None \<Rightarrow> None
           | Some st \<Rightarrow>
               add_subscribers newid sd (if ps = [] then None else Some (last ps)) (with_answers rs sd) st)"

section \<open>main\<close>

definition stopHandler :: "ds_glob \<Rightarrow> ds_glob" where
  "stopHandler g = g\<lparr>g_running := False\<rparr>"

record main_end =
  me_status :: int
  me_joined :: "int list"
  me_logs :: fs_res
  me_queue_removed :: bool
  me_freed :: "block list"

datatype main_res = M_exit int | M_undefined | M_return main_end

text \<open>
  The answers of the outside world: the JSON library and the file on the command line, the clock,
  the message queues, the allocations, the callbacks the library registers, the subscribers whose
  callback has closed its file when the run ends, and the status the run ends with.
\<close>

record 'j main_in =
  mi_js :: "'j jsonc"
  mi_alloc :: alloc
  mi_fopen :: "string \<Rightarrow> bool"
  mi_from_file :: "string \<Rightarrow> 'j option"
  mi_argv1 :: "string option"
  mi_clock :: "int option"
  mi_queues :: "int list"
  mi_calloc :: bool
  mi_subs :: "nat \<Rightarrow> u32 \<times> bool"
  mi_callbacks :: "(bool \<times> thread_answers) list"
  mi_closed :: "nat \<Rightarrow> bool"
  mi_good :: bool
  mi_perm :: perms
  mi_files :: files

text \<open>The subscribers after the run: a callback that has closed its file has set the pointer to \<^verbatim>\<open>NULL\<close>.\<close>

definition after_run :: "(nat \<Rightarrow> bool) \<Rightarrow> server_data \<Rightarrow> server_data" where
  "after_run closed sd =
     sd\<lparr>s_subData := Some (map (\<lambda>(d, k). if closed k then d\<lparr>sd_fp := None\<rparr> else d) (zip (subs_of sd) [0..<length (subs_of sd)]))\<rparr>"

text \<open>\<open>me_queue_removed\<close> says that the removal of the message queue is requested.\<close>

definition opcua_main :: "(nat \<Rightarrow> 'n) \<Rightarrow> 'n \<Rightarrow> bool \<Rightarrow> 'j main_in \<Rightarrow> main_res" where
  "opcua_main newid null xdptbs i =
     (case parseArgs (mi_js i) (mi_alloc i) (mi_fopen i) (mi_from_file i) (mi_argv1 i) of
        PJ_exit m \<Rightarrow> M_exit 1
      | PJ_null freed \<Rightarrow> M_exit (- 1)
      | PJ_ok sd \<Rightarrow>
          (case configureServer (mi_clock i) (mi_queues i) sd of
             None \<Rightarrow> M_exit (- 1)
           | Some (sd1, ret) \<Rightarrow>
               let threadCount = (of_nat (length (pubs_of sd1)) + of_nat (length (subs_of sd1)) :: u16)
               in if unat threadCount > MAX_OPCUA_THREAD then M_exit (- 1)
                  else
                    (case setupOpcuaServer newid null xdptbs (mi_calloc i) (mi_subs i) sd1 of
                       None \<Rightarrow> M_exit (- 1)
                     | Some st \<Rightarrow>
                         (case register_all sd1 (mi_callbacks i) thr_init of
                            ARC_exit e \<Rightarrow> M_exit e
                          | ARC_good g \<Rightarrow>
                              M_return
                                \<lparr>me_status = (if mi_good i then 0 else 1),
                                 me_joined = take (unat (g_threadRun g)) (g_thread g),
                                 me_logs = srv_ts_log_stop (mi_perm i) (mi_files i),
                                 me_queue_removed = (s_msqid sd1 \<ge> 0),
                                 me_freed = free_resources (Some (after_run (mi_closed i) sd1))\<rparr>
                          | _ \<Rightarrow> M_undefined))))"

section \<open>Lemmas\<close>

text \<open>
  The objects a call refers to and the object it makes, with their kinds. A sequence of calls is
  linked if every object it refers to was made by an earlier call.
\<close>

datatype ua_kind = K_connection | K_dataset | K_writer_group | K_reader_group | K_reader | K_other

fun ua_refs :: "'n ua_call \<Rightarrow> (ua_kind \<times> 'n) list" where
  "ua_refs (Add_field d _ _) = [(K_dataset, d)]"
| "ua_refs (Add_writer_group c _ _ _) = [(K_connection, c)]"
| "ua_refs (Set_operational w) = [(K_writer_group, w)]"
| "ua_refs (Add_writer w d _ _ _) = [(K_writer_group, w), (K_dataset, d)]"
| "ua_refs (Freeze_writer_group w) = [(K_writer_group, w)]"
| "ua_refs (Add_reader_group c _) = [(K_connection, c)]"
| "ua_refs (Add_reader r _ _ _ _) = [(K_reader_group, r)]"
| "ua_refs (Create_targets r _) = [(K_reader, r)]"
| "ua_refs _ = []"

fun ua_makes :: "'n ua_call \<Rightarrow> (ua_kind \<times> 'n) list" where
  "ua_makes (Add_connection _ n) = [(K_connection, n)]"
| "ua_makes (Add_dataset n) = [(K_dataset, n)]"
| "ua_makes (Add_writer_group _ _ _ n) = [(K_writer_group, n)]"
| "ua_makes (Add_reader_group _ n) = [(K_reader_group, n)]"
| "ua_makes (Add_reader _ _ _ _ n) = [(K_reader, n)]"
| "ua_makes (Add_field _ _ n) = [(K_other, n)]"
| "ua_makes (Add_writer _ _ _ _ n) = [(K_other, n)]"
| "ua_makes _ = []"

definition made :: "'n ua_call list \<Rightarrow> (ua_kind \<times> 'n) set" where
  "made cs = set (concat (map ua_makes cs))"

definition linked :: "'n ua_call list \<Rightarrow> bool" where
  "linked cs \<longleftrightarrow> (\<forall>k < length cs. set (ua_refs (cs ! k)) \<subseteq> made (take k cs))"

lemma made_append [simp]: "made (cs @ ds) = made cs \<union> made ds"
  by (simp add: made_def)

lemma made_simps [simp]: "made [] = {}" "made (c # cs) = set (ua_makes c) \<union> made cs"
  by (simp_all add: made_def)

lemma linked_snoc: "linked (cs @ [c]) \<longleftrightarrow> linked cs \<and> set (ua_refs c) \<subseteq> made cs"
  unfolding linked_def length_append_singleton All_less_Suc by (auto simp: nth_append)

lemma linked_Nil: "linked []"
  by (simp add: linked_def)

lemmas ua_defs = ua_do_def ua_new_def addPubSubConnection_def addPublishedDataSet_def addDataSetField_def
  addWriterGroup_def addDataSetWriter_def createPublisher_def addSubConnection_def addReaderGroup_def
  addDataSetReader_def addSubscribedVariables_def createSubscriber_def connect_sub_def new_layer_def Let_def

text \<open>The contract of a step of the setup: it keeps the calls linked and the current connection a made one.\<close>

definition setup_ok :: "'n setup_st \<Rightarrow> bool" where
  "setup_ok st \<longleftrightarrow> linked (sv_calls (su_srv st)) \<and> (K_connection, su_conn st) \<in> made (sv_calls (su_srv st))"

lemma linked_createPublisher:
  assumes "linked (sv_calls s)" and "(K_connection, conn) \<in> made (sv_calls s)"
  shows "linked (sv_calls (snd (createPublisher newid sd p conn s)))"
    and "(K_connection, conn) \<in> made (sv_calls (snd (createPublisher newid sd p conn s)))"
  using assms by (simp_all add: ua_defs linked_snoc flip: append_assoc)

lemma linked_createSubscriber:
  assumes "linked (sv_calls s)" and "(K_connection, conn) \<in> made (sv_calls s)"
  shows "linked (sv_calls (snd (createSubscriber newid ok d conn s)))"
    and "(K_connection, conn) \<in> made (sv_calls (snd (createSubscriber newid ok d conn s)))"
  using assms by (simp_all add: ua_defs linked_snoc flip: append_assoc)

lemma add_publishers_ok:
  "linked (sv_calls (su_srv st)) \<Longrightarrow> add_publishers newid x sd ps st = Some st' \<Longrightarrow>
     linked (sv_calls (su_srv st')) \<and> (ps \<noteq> [] \<or> setup_ok st \<longrightarrow> setup_ok st')"
proof (induction ps arbitrary: st)
  case Nil
  then show ?case by (simp add: setup_ok_def)
next
  case (Cons p ps)
  obtain conn s1 where c: "addPubSubConnection newid x sd p (su_srv st) = (conn, s1)" by fastforce
  then have "linked (sv_calls s1)" "(K_connection, conn) \<in> made (sv_calls s1)"
    using Cons.prems(1) by (auto simp: addPubSubConnection_def ua_new_def linked_snoc)
  note cp = linked_createPublisher [OF this, of newid sd p]
  let ?st = "st\<lparr>su_srv := snd (createPublisher newid sd p conn s1), su_conn := conn\<rparr>"
  have "add_publishers newid x sd ps ?st = Some st'"
    using Cons.prems(2) c by (simp add: split_beta split: if_splits)
  from Cons.IH [OF _ this] cp show ?case
    by (simp add: setup_ok_def)
qed

lemma attach_ok:
  assumes "linked (sv_calls (su_srv st))" and "pub = None \<or> setup_ok st"
  shows "setup_ok (attach_subscriber newid rnd sd pub d st)"
  using assms by (auto simp: attach_subscriber_def shares_layer_def setup_ok_def ua_defs linked_snoc)

lemma add_subscribers_ok:
  "linked (sv_calls (su_srv st)) \<Longrightarrow> pub = None \<or> setup_ok st \<Longrightarrow>
     add_subscribers newid sd pub ds st = Some st' \<Longrightarrow> linked (sv_calls (su_srv st'))"
proof (induction ds arbitrary: st)
  case Nil
  then show ?case by simp
next
  case (Cons c ds)
  obtain d rnd ok where c: "c = (d, rnd, ok)" by (cases c) auto
  let ?st = "attach_subscriber newid rnd sd pub d st"
  let ?st1 = "?st\<lparr>su_srv := snd (createSubscriber newid ok d (su_conn ?st) (su_srv ?st))\<rparr>"
  have "setup_ok ?st"
    using Cons.prems by (intro attach_ok)
  then have "setup_ok ?st1"
    using linked_createSubscriber [of "su_srv ?st" "su_conn ?st" newid ok d] by (simp add: setup_ok_def)
  moreover have "add_subscribers newid sd pub ds ?st1 = Some st'"
    using Cons.prems(3) c by (simp add: split_beta Let_def split: if_splits)
  ultimately show ?case
    using Cons.IH [of ?st1] by (simp add: setup_ok_def)
qed

lemma add_subscribers_size:
  "add_subscribers newid sd pub ds st = Some st' \<Longrightarrow>
     length (su_layers st') = length (su_layers st) \<and>
     su_size st' = su_size st + (if pub = None then 0 else length (filter (\<lambda>c. \<not> shares_layer sd pub (fst c)) ds))"
proof (induction ds arbitrary: st)
  case Nil
  then show ?case by simp
next
  case (Cons c ds)
  obtain d rnd ok where c: "c = (d, rnd, ok)" by (cases c) auto
  let ?st = "attach_subscriber newid rnd sd pub d st"
  let ?st1 = "?st\<lparr>su_srv := snd (createSubscriber newid ok d (su_conn ?st) (su_srv ?st))\<rparr>"
  have "length (su_layers ?st) = length (su_layers st)"
    and "su_size ?st = su_size st + (if pub = None \<or> shares_layer sd pub d then 0 else 1)"
    by (auto simp: attach_subscriber_def ua_defs shares_layer_def)
  moreover have "add_subscribers newid sd pub ds ?st1 = Some st'"
    using Cons.prems c by (simp add: split_beta Let_def split: if_splits)
  ultimately show ?case
    using Cons.IH [of ?st1] c by (auto simp: shares_layer_def)
qed

lemma add_publishers_size:
  "add_publishers newid x sd ps st = Some st' \<Longrightarrow> su_layers st' = su_layers st \<and> su_size st' = su_size st"
  by (induction ps arbitrary: st) (auto simp: split_beta Let_def split: if_splits)

lemma add_publishers_runs: "\<exists>st'. add_publishers newid x sd ps st = Some st'"
  by (induction ps arbitrary: st) (auto simp: split_beta Let_def createPublisher_def)

lemma add_subscribers_runs: "\<exists>st'. add_subscribers newid sd pub ds st = Some st'"
proof (induction ds arbitrary: st)
  case (Cons c ds)
  then show ?case
    by (cases c) (auto simp: split_beta Let_def createSubscriber_def)
qed simp

lemma setup_runs: "\<exists>st. setupOpcuaServer newid null x True rs sd = Some st"
proof -
  obtain st where "add_publishers newid x sd (pubs_of sd) (setup_start null sd) = Some st"
    using add_publishers_runs by blast
  then show ?thesis
    using add_subscribers_runs [of newid sd _ "with_answers rs sd" st] by (simp add: setupOpcuaServer_def Let_def)
qed

lemma configure_pubs_ok: "list_all pub_ok ps \<Longrightarrow> list_all pub_ok (fst (configure_pubs mq ps r))"
  by (induction mq ps r rule: configure_pubs.induct) (auto simp: split_beta Let_def pub_ok_def)

lemma configure_pubs_length: "length (fst (configure_pubs mq ps r)) = length ps"
  by (induction mq ps r rule: configure_pubs.induct) (auto simp: split_beta Let_def)

lemma configured_counts:
  assumes "configureServer clock mq sd = Some (sd', ret)"
  shows "length (pubs_of sd') = length (pubs_of sd)" and "length (subs_of sd') = length (subs_of sd)"
    and "s_pubData sd' = Some (pubs_of sd')" and "s_subData sd' = Some (subs_of sd')"
  using assms configure_pubs_length [of mq "pubs_of sd" "(- 1, True)"]
  by (auto simp: configureServer_def pubs_of_def subs_of_def split_beta Let_def split: option.splits)

lemma configured_ok:
  assumes "configureServer clock mq sd = Some (sd', ret)" and "server_ok sd"
  shows "server_ok sd'"
proof -
  obtain ps ds where "s_pubData sd = Some ps" "list_all pub_ok ps" "s_subData sd = Some ds" "list_all sub_ok ds"
    using assms(2) by (auto simp: server_ok_def)
  moreover from this have "list_all sub_ok (map configure_sub ds)"
    by (auto simp: list_all_iff configure_sub_def sub_ok_def)
  ultimately show ?thesis
    using assms configure_pubs_ok [of ps mq "(- 1, True)"]
    by (auto simp: configureServer_def pubs_of_def subs_of_def server_ok_def split_beta Let_def split: option.splits)
qed

text \<open>Everything a parsed configuration holds: its blocks, and the files the run has not closed.\<close>

definition held :: "(nat \<Rightarrow> bool) \<Rightarrow> nat \<Rightarrow> nat \<Rightarrow> block set" where
  "held closed np ns =
     {B_pubData, B_subData, B_subInterface, B_pubInterface, B_sdata} \<union> B_pub_url ` {..<np} \<union>
     B_sub_url ` {..<ns} \<union> B_sub_name ` {..<ns} \<union> {B_sub_file k | k. k < ns \<and> \<not> closed k}"

lemma released_all:
  assumes "server_ok sd"
  shows "set (free_resources (Some (after_run closed sd))) = held closed (length (pubs_of sd)) (length (subs_of sd))"
proof -
  let ?close = "\<lambda>(d, k). if closed k then d\<lparr>sd_fp := None\<rparr> else d"
  obtain ps ds where ps: "s_pubData sd = Some ps" "list_all pub_ok ps" and ds: "s_subData sd = Some ds" "list_all sub_ok ds"
    and ifs: "s_pubInterface sd \<noteq> None" "s_subInterface sd \<noteq> None"
    using assms by (auto simp: server_ok_def)
  define ds' where "ds' = map ?close (zip ds [0..<length ds])"
  have "list_all (\<lambda>p. pd_url p \<noteq> None) ps"
    using ps(2) by (auto simp: list_all_iff pub_ok_def)
  note p = free_pubs_set [OF this, of 0]
  have nth: "ds' ! k = ?close (ds ! k, k)" if "k < length ds" for k
    using that by (simp add: ds'_def)
  moreover have ok: "sd_url (ds ! k) \<noteq> None \<and> sd_fileName (ds ! k) \<noteq> None \<and> sd_fp (ds ! k) \<noteq> None" if "k < length ds" for k
    using ds(2) that by (auto simp: list_all_length sub_ok_def)
  moreover have len: "length ds' = length ds"
    by (simp add: ds'_def)
  ultimately have "list_all (\<lambda>d. sd_url d \<noteq> None \<and> sd_fileName d \<noteq> None) ds'"
    by (auto simp: list_all_length)
  from free_subs_set [OF this, of 0] have "set (free_subs 0 ds') =
      B_sub_url ` {..<length ds} \<union> B_sub_name ` {..<length ds} \<union> {B_sub_file k | k. k < length ds \<and> \<not> closed k}"
    using nth ok by (auto simp: len atLeast0LessThan)
  with p ps(1) ds(1) ifs show ?thesis
    by (auto simp: free_resources_def after_run_def subs_of_def pubs_of_def held_def free_if_def ds'_def atLeast0LessThan)
qed

lemma thread_count_exact:
  "a + b < 65536 \<Longrightarrow> unat (of_nat a + of_nat b :: u16) = a + b"
  by (simp add: unat_of_nat flip: of_nat_add)

text \<open>The connections the reader groups are put on, in the order of the subscribers.\<close>

fun reader_conns :: "'n ua_call list \<Rightarrow> 'n list" where
  "reader_conns [] = []"
| "reader_conns (Add_reader_group c _ # cs) = c # reader_conns cs"
| "reader_conns (_ # cs) = reader_conns cs"

lemma reader_conns_append [simp]: "reader_conns (cs @ ds) = reader_conns cs @ reader_conns ds"
  by (induction cs rule: reader_conns.induct) auto

lemma createPublisher_effect:
  "reader_conns (sv_calls (snd (createPublisher newid sd p conn s))) = reader_conns (sv_calls s)"
  "sv_ids (snd (createPublisher newid sd p conn s)) = sv_ids s + 4"
  by (simp_all add: ua_defs)

lemma createSubscriber_effect:
  "reader_conns (sv_calls (snd (createSubscriber newid ok d conn s))) = reader_conns (sv_calls s) @ [conn]"
  "set (sv_calls s) \<subseteq> set (sv_calls (snd (createSubscriber newid ok d conn s)))"
  by (auto simp: ua_defs)

lemma create_returns:
  "fst (createPublisher newid sd p conn s) = 0" "fst (createSubscriber newid ok d conn s) = 0"
  by (simp_all add: createPublisher_def createSubscriber_def split_beta Let_def)

lemma length_filter_zip:
  "length xs = length ys \<Longrightarrow> length (filter (\<lambda>c. P (fst c)) (zip xs ys)) = length (filter P xs)"
  by (induction xs ys rule: list_induct2) auto

lemma length_filter_answers:
  "length (filter (\<lambda>c. P (fst c)) (with_answers rs sd)) = length (filter P (subs_of sd))"
  unfolding with_answers_def by (rule length_filter_zip) simp

section \<open>Properties\<close>

text \<open>
  C38: the server is put together consistently: whatever the configuration, every connection, data
  set, writer group, reader group or reader that a call to the library names was made by an
  earlier call, and is of the kind the call needs.
\<close>

theorem setup_linked:
  assumes "setupOpcuaServer newid null xdptbs calloc_ok rs sd = Some st"
  shows "linked (sv_calls (su_srv st))"
proof -
  obtain st1 where st1: "add_publishers newid xdptbs sd (pubs_of sd) (setup_start null sd) = Some st1"
    and st: "add_subscribers newid sd (if pubs_of sd = [] then None else Some (last (pubs_of sd)))
        (with_answers rs sd) st1 = Some st"
    using assms by (auto simp: setupOpcuaServer_def Let_def split: if_splits option.splits)
  have "linked (sv_calls (su_srv st1)) \<and> (pubs_of sd \<noteq> [] \<longrightarrow> setup_ok st1)"
    using add_publishers_ok [OF _ st1] by (simp add: setup_start_def linked_Nil)
  then show ?thesis
    using add_subscribers_ok [OF _ _ st] by auto
qed

theorem setup_linked_witness:
  "\<exists>st. setupOpcuaServer (\<lambda>k. k) 0 False True (\<lambda>_. (0, True)) ex_server = Some st \<and>
     linked (sv_calls (su_srv st)) \<and> length (sv_calls (su_srv st)) = 13"
proof -
  obtain st where st: "setupOpcuaServer (\<lambda>k. k) (0 :: nat) False True (\<lambda>_. (0, True)) ex_server = Some st"
    using setup_runs [of "\<lambda>k. k" 0 False "\<lambda>_. (0, True)" ex_server] by blast
  moreover have "length (sv_calls (su_srv st)) = 13"
    using st
    by (auto simp: setupOpcuaServer_def with_answers_def ex_server_def pubs_of_def subs_of_def setup_start_def ua_defs
        attach_subscriber_def shares_layer_def zero_server_def)
  ultimately show ?thesis
    using setup_linked [OF st] by blast
qed

text \<open>
  C40: two transport layers are allocated, and the size told to the library is one more than the
  number of subscribers that do not share the connection of the last publisher, if there is a
  publisher. With two such subscribers the library is told of layers beyond the allocated ones.
\<close>

theorem transport_layers:
  assumes "setupOpcuaServer newid null xdptbs calloc_ok rs sd = Some st" and "pubs_of sd \<noteq> []"
  shows "length (su_layers st) = 2 \<and>
         (su_size st > length (su_layers st) \<longleftrightarrow>
            2 \<le> length (filter (\<lambda>d. \<not> shares_layer sd (Some (last (pubs_of sd))) d) (subs_of sd)))"
proof -
  obtain st1 where st1: "add_publishers newid xdptbs sd (pubs_of sd) (setup_start null sd) = Some st1"
    and st: "add_subscribers newid sd (Some (last (pubs_of sd))) (with_answers rs sd) st1 = Some st"
    using assms by (auto simp: setupOpcuaServer_def Let_def split: if_splits option.splits)
  let ?own = "\<lambda>d. \<not> shares_layer sd (Some (last (pubs_of sd))) d"
  show ?thesis
    using length_filter_answers [of ?own rs sd] add_subscribers_size [OF st] add_publishers_size [OF st1] by (simp add: setup_start_def Suc_le_eq numeral_2_eq_2)
qed

text \<open>A configuration with one publisher and two subscribers over AF\_XDP on one interface.\<close>

definition ex_xdp :: "int \<Rightarrow> int \<Rightarrow> server_data" where
  "ex_xdp q1 q2 = ex_server\<lparr>s_useXDP := True, s_subInterface := Some ''eth0'',
     s_subData := Some [(subs_of ex_server ! 0)\<lparr>sd_xdpQueue := q1\<rparr>, (subs_of ex_server ! 0)\<lparr>sd_xdpQueue := q2\<rparr>]\<rparr>"

lemma ex_xdp_simps:
  "pubs_of (ex_xdp q1 q2) = pubs_of ex_server" "length (pubs_of (ex_xdp q1 q2)) = 1"
  "map sd_xdpQueue (subs_of (ex_xdp q1 q2)) = [q1, q2]" "length (subs_of (ex_xdp q1 q2)) = 2"
  "s_useXDP (ex_xdp q1 q2)" "s_subInterface (ex_xdp q1 q2) = s_pubInterface (ex_xdp q1 q2)"
  "pd_xdpQueue (pubs_of ex_server ! 0) = 0"
  by (simp_all add: ex_xdp_def ex_server_def pubs_of_def subs_of_def zero_pub_def)

theorem transport_layers_witness:
  "\<exists>st. setupOpcuaServer (\<lambda>k. k) (0 :: nat) False True (\<lambda>_. (0, True)) (ex_xdp 1 2) = Some st \<and>
     length (su_layers st) = 2 \<and> su_size st > 2"
proof -
  obtain st where st: "setupOpcuaServer (\<lambda>k. k) (0 :: nat) False True (\<lambda>_. (0, True)) (ex_xdp 1 2) = Some st"
    using setup_runs [of "\<lambda>k. k" 0 False "\<lambda>_. (0, True)" "ex_xdp 1 2"] by blast
  have "pubs_of (ex_xdp 1 2) \<noteq> []"
    by (simp add: ex_xdp_simps) (simp add: ex_server_def pubs_of_def)
  from transport_layers [OF st this] show ?thesis
    using st by (simp add: ex_xdp_def ex_server_def pubs_of_def subs_of_def shares_layer_def zero_pub_def)
qed

text \<open>
  A subscriber that is to share the connection of the publisher is put on the connection that
  was made last instead. After a subscriber with a connection of its own, on another queue, the
  sharing one reads from that other queue's connection and not from the publisher's.
\<close>

theorem shared_after_unshared:
  assumes "pubs_of sd = [p]" and "subs_of sd = [d1, d2]" and "s_useXDP sd" and "s_subInterface sd = s_pubInterface sd"
    and "sd_xdpQueue d1 \<noteq> pd_xdpQueue p" and "sd_xdpQueue d2 = pd_xdpQueue p"
  shows "\<exists>st cfg. setupOpcuaServer newid null xdptbs True rs sd = Some st \<and>
     Add_connection cfg (newid 5) \<in> set (sv_calls (su_srv st)) \<and> cc_xdp_queue cfg = sd_xdpQueue d1 \<and>
     reader_conns (sv_calls (su_srv st)) = [newid 5, newid 5]"
proof -
  obtain n1 b1 n2 b2 where r: "rs 0 = (n1, b1)" "rs 1 = (n2, b2)" by fastforce
  obtain conn0 s0 where c0: "addPubSubConnection newid xdptbs sd p (su_srv (setup_start null sd)) = (conn0, s0)" by fastforce
  then have s0: "reader_conns (sv_calls s0) = []" "sv_ids s0 = 1"
    by (auto simp: ua_defs setup_start_def)
  define s1 where "s1 = snd (createPublisher newid sd p conn0 s0)"
  have s1: "reader_conns (sv_calls s1) = []" "sv_ids s1 = 5"
    using s0 createPublisher_effect [of newid sd p conn0 s0] by (simp_all add: s1_def)
  define s2 where "s2 = snd (addSubConnection newid n1 sd d1 s1)"
  have s2: "reader_conns (sv_calls s2) = []" "Add_connection (sub_conn_config n1 sd d1) (newid 5) \<in> set (sv_calls s2)"
    "addSubConnection newid n1 sd d1 s1 = (newid 5, s2)"
    using s1 by (simp_all add: s2_def addSubConnection_def ua_new_def)
  define s3 where "s3 = snd (createSubscriber newid b1 d1 (newid 5) s2)"
  define s4 where "s4 = snd (createSubscriber newid b2 d2 (newid 5) s3)"
  have s4: "reader_conns (sv_calls s4) = [newid 5, newid 5]"
    "Add_connection (sub_conn_config n1 sd d1) (newid 5) \<in> set (sv_calls s4)"
    using createSubscriber_effect(2) [of s2 newid b1 d1 "newid 5"] createSubscriber_effect(2) [of s3 newid b2 d2 "newid 5"] s2
    by (auto simp: s3_def s4_def createSubscriber_effect(1))
  have "\<exists>st. setupOpcuaServer newid null xdptbs True rs sd = Some st \<and> su_srv st = s4"
    using assms c0 s2(3)
    by (simp add: setupOpcuaServer_def with_answers_def r r [simplified] upt_rec attach_subscriber_def shares_layer_def connect_sub_def new_layer_def
        split_beta create_returns s1_def [symmetric] s3_def [symmetric] s4_def [symmetric] Let_def)
  moreover have "cc_xdp_queue (sub_conn_config n1 sd d1) = sd_xdpQueue d1"
    using assms(3) by (simp add: sub_conn_config_def)
  ultimately show ?thesis
    using s4 by auto
qed

theorem shared_after_unshared_witness:
  "\<exists>st. setupOpcuaServer (\<lambda>k. k) (0 :: nat) False True (\<lambda>_. (0, True)) (ex_xdp 1 0) = Some st \<and>
     reader_conns (sv_calls (su_srv st)) = [5, 5]"
proof -
  let ?d = "subs_of (ex_xdp 1 0)"
  have "pubs_of (ex_xdp 1 0) = [pubs_of ex_server ! 0]" and "?d = [?d ! 0, ?d ! 1]"
    and "sd_xdpQueue (?d ! 0) \<noteq> pd_xdpQueue (pubs_of ex_server ! 0)"
    and "sd_xdpQueue (?d ! 1) = pd_xdpQueue (pubs_of ex_server ! 0)"
    by (simp_all add: ex_xdp_def ex_server_def pubs_of_def subs_of_def zero_pub_def)
  from shared_after_unshared [OF this(1,2) ex_xdp_simps(5,6) this(3,4), of "\<lambda>k. k" 0 False "\<lambda>_. (0, True)"]
  show ?thesis by blast
qed


definition ex_main :: "jval main_in" where
  "ex_main = \<lparr>mi_js = ex_js, mi_alloc = \<lparr>al_server = True, al_pubs = True, al_subs = True\<rparr>, mi_fopen = (\<lambda>_. True),
     mi_from_file = (\<lambda>_. Some (JObj [(''opcua_server'', ex_json)])), mi_argv1 = Some ''opcua.json'',
     mi_clock = Some 12, mi_queues = [], mi_calloc = True, mi_subs = (\<lambda>_. (0, True)),
     mi_callbacks = [(True, \<lparr>ta_sched = 0, ta_affinity = 0, ta_create = 0, ta_id = 9\<rparr>)], mi_closed = (\<lambda>_. False),
     mi_good = True,
     mi_perm = (\<lambda>f w. True), mi_files = (\<lambda>f. None)\<rparr>"


end
