(* ===== verification/Opcua_Ids.thy ===== *)
theory Opcua_Ids
  imports Opcua_Server
begin

text \<open>
  Which writers and readers meet. The identifiers that the messages of a publisher carry, and those a
  subscriber's reader selects messages by, are read off the calls that \<^verbatim>\<open>setupOpcuaServer\<close> makes to
  the library, and compared between two servers.
\<close>

section \<open>Identifiers in the calls\<close>

text \<open>The last connection and the last writer group made under a node identifier; the latest call comes first.\<close>

fun conn_of :: "'n \<Rightarrow> 'n ua_call list \<Rightarrow> conn_config option" where
  "conn_of n [] = None"
| "conn_of n (Add_connection cfg m # cs) = (if m = n then Some cfg else conn_of n cs)"
| "conn_of n (_ # cs) = conn_of n cs"

fun group_of :: "'n \<Rightarrow> 'n ua_call list \<Rightarrow> ('n \<times> u16) option" where
  "group_of n [] = None"
| "group_of n (Add_writer_group c t g m # cs) = (if m = n then Some (c, g) else group_of n cs)"
| "group_of n (_ # cs) = group_of n cs"

text \<open>Publisher, writer group and writer of the messages each writer sends.\<close>

fun writer_ids :: "'n ua_call list \<Rightarrow> (u32 \<times> u16 \<times> u16) option list" where
  "writer_ids [] = []"
| "writer_ids (Add_writer w d wid k m # cs) =
     writer_ids cs @
       [case group_of w cs of
          None \<Rightarrow> None
        | Some (c, g) \<Rightarrow> map_option (\<lambda>cfg. (cc_publisherId cfg, g, wid)) (conn_of c cs)]"
| "writer_ids (_ # cs) = writer_ids cs"

text \<open>Publisher, writer group and writer whose messages each reader takes.\<close>

fun reader_ids :: "'n ua_call list \<Rightarrow> (u32 \<times> u16 \<times> u16) option list" where
  "reader_ids [] = []"
| "reader_ids (Add_reader r wid pid g m # cs) = reader_ids cs @ [Some (ucast pid, g, wid)]"
| "reader_ids (_ # cs) = reader_ids cs"

section \<open>What the set-up configures\<close>

definition pub_ids :: "publisher_data \<Rightarrow> u32 \<times> u16 \<times> u16" where
  "pub_ids p = (ucast (word_of_int (pd_id p) :: u16), word_of_int (pd_writerGroupId p), word_of_int (pd_dataSetWriterId p))"

definition sub_ids :: "subscriber_data \<Rightarrow> u32 \<times> u16 \<times> u16" where
  "sub_ids d = (ucast (word_of_int (sd_subscribedPubId d) :: u16), word_of_int (sd_subscribedWGId d),
     word_of_int (sd_subscribedDSWriterId d))"

lemma publisher_ids:
  "writer_ids (rev (sv_calls (snd (createPublisher newid sd p (fst (addPubSubConnection newid x sd p s))
       (snd (addPubSubConnection newid x sd p s)))))) = writer_ids (rev (sv_calls s)) @ [Some (pub_ids p)]"
  "reader_ids (rev (sv_calls (snd (createPublisher newid sd p (fst (addPubSubConnection newid x sd p s))
       (snd (addPubSubConnection newid x sd p s)))))) = reader_ids (rev (sv_calls s))"
  by (simp_all add: ua_defs pub_conn_config_def pub_ids_def)

lemma subscriber_ids:
  "writer_ids (rev (sv_calls (snd (createSubscriber newid ok d conn s)))) = writer_ids (rev (sv_calls s))"
  "reader_ids (rev (sv_calls (snd (createSubscriber newid ok d conn s)))) = reader_ids (rev (sv_calls s)) @ [Some (sub_ids d)]"
  by (simp_all add: ua_defs sub_ids_def)

lemma attach_ids:
  "writer_ids (rev (sv_calls (su_srv (attach_subscriber newid rnd sd pub d st)))) = writer_ids (rev (sv_calls (su_srv st)))"
  "reader_ids (rev (sv_calls (su_srv (attach_subscriber newid rnd sd pub d st)))) = reader_ids (rev (sv_calls (su_srv st)))"
  by (simp_all add: attach_subscriber_def ua_defs)

lemma add_publishers_ids:
  "add_publishers newid x sd ps st = Some st' \<Longrightarrow>
     writer_ids (rev (sv_calls (su_srv st'))) = writer_ids (rev (sv_calls (su_srv st))) @ map (Some \<circ> pub_ids) ps \<and>
     reader_ids (rev (sv_calls (su_srv st'))) = reader_ids (rev (sv_calls (su_srv st)))"
proof (induction ps arbitrary: st)
  case (Cons p ps)
  let ?c = "addPubSubConnection newid x sd p (su_srv st)"
  let ?st = "st\<lparr>su_srv := snd (createPublisher newid sd p (fst ?c) (snd ?c)), su_conn := fst ?c\<rparr>"
  have "add_publishers newid x sd ps ?st = Some st'"
    using Cons.prems by (simp add: split_beta Let_def create_returns)
  from Cons.IH [OF this] show ?case
    by (simp add: publisher_ids)
qed simp

lemma add_subscribers_ids:
  "add_subscribers newid sd pub ds st = Some st' \<Longrightarrow>
     writer_ids (rev (sv_calls (su_srv st'))) = writer_ids (rev (sv_calls (su_srv st))) \<and>
     reader_ids (rev (sv_calls (su_srv st'))) = reader_ids (rev (sv_calls (su_srv st))) @ map (Some \<circ> sub_ids \<circ> fst) ds"
proof (induction ds arbitrary: st)
  case (Cons c ds)
  obtain d rnd ok where c: "c = (d, rnd, ok)" by (cases c) auto
  let ?st = "attach_subscriber newid rnd sd pub d st"
  let ?st1 = "?st\<lparr>su_srv := snd (createSubscriber newid ok d (su_conn ?st) (su_srv ?st))\<rparr>"
  have "add_subscribers newid sd pub ds ?st1 = Some st'"
    using Cons.prems c by (simp add: split_beta Let_def create_returns)
  from Cons.IH [OF this] show ?case
    by (simp add: subscriber_ids attach_ids c)
qed simp

lemma setup_ids:
  assumes "setupOpcuaServer newid null x ok rs sd = Some st"
  shows "writer_ids (rev (sv_calls (su_srv st))) = map (Some \<circ> pub_ids) (pubs_of sd)"
    and "reader_ids (rev (sv_calls (su_srv st))) = map (Some \<circ> sub_ids) (subs_of sd)"
proof -
  have fst_answers: "map fst (with_answers rs sd) = subs_of sd"
    by (simp add: with_answers_def)
  obtain st1 where st1: "add_publishers newid x sd (pubs_of sd) (setup_start null sd) = Some st1"
    and st: "add_subscribers newid sd (if pubs_of sd = [] then None else Some (last (pubs_of sd)))
        (with_answers rs sd) st1 = Some st"
    using assms by (auto simp: setupOpcuaServer_def Let_def split: if_splits option.splits)
  show "writer_ids (rev (sv_calls (su_srv st))) = map (Some \<circ> pub_ids) (pubs_of sd)"
    using add_publishers_ids [OF st1] add_subscribers_ids [OF st] by (simp add: setup_start_def)
  have "map (Some \<circ> sub_ids \<circ> fst) (with_answers rs sd) = map (Some \<circ> sub_ids) (subs_of sd)"
    using arg_cong [OF fst_answers, of "map (Some \<circ> sub_ids)"] by simp
  then show "reader_ids (rev (sv_calls (su_srv st))) = map (Some \<circ> sub_ids) (subs_of sd)"
    using add_publishers_ids [OF st1] add_subscribers_ids [OF st] by (simp add: setup_start_def)
qed

lemma word16_eq: "(word_of_int a :: u16) = word_of_int b \<longleftrightarrow> a mod 65536 = b mod 65536"
  by (simp add: word_of_int_eq_iff take_bit_eq_mod)

lemma ids_meet:
  "pub_ids p = sub_ids d \<longleftrightarrow>
     pd_id p mod 65536 = sd_subscribedPubId d mod 65536 \<and>
     pd_writerGroupId p mod 65536 = sd_subscribedWGId d mod 65536 \<and>
     pd_dataSetWriterId p mod 65536 = sd_subscribedDSWriterId d mod 65536"
proof -
  have down: "(ucast (ucast a :: u32) :: u16) = a" for a
    by (simp add: ucast_up_ucast_id is_up)
  have "(ucast a :: u32) = ucast b \<longleftrightarrow> a = b" for a b :: u16
    by (metis down)
  then show ?thesis
    by (simp add: pub_ids_def sub_ids_def word16_eq)
qed

section \<open>Properties\<close>

text \<open>
  C37: who receives what. In the calls two servers make to the library, the messages of a publisher
  of the one carry the identifiers that the reader of a subscriber of the other asks for if and
  only if the configured publisher, writer group and writer identifiers agree modulo 65536; every
  publisher has its writer and every subscriber its reader, in the order of the configuration.
\<close>

theorem writers_meet_readers:
  assumes "setupOpcuaServer newid1 null1 x1 ok1 rs1 sd1 = Some st1"
    and "setupOpcuaServer newid2 null2 x2 ok2 rs2 sd2 = Some st2"
    and "writers = writer_ids (rev (sv_calls (su_srv st1)))" and "readers = reader_ids (rev (sv_calls (su_srv st2)))"
  shows "length writers = length (pubs_of sd1) \<and> length readers = length (subs_of sd2) \<and> None \<notin> set writers \<and>
         (\<forall>i < length writers. \<forall>j < length readers. writers ! i = readers ! j \<longleftrightarrow>
            pd_id (pubs_of sd1 ! i) mod 65536 = sd_subscribedPubId (subs_of sd2 ! j) mod 65536 \<and>
            pd_writerGroupId (pubs_of sd1 ! i) mod 65536 = sd_subscribedWGId (subs_of sd2 ! j) mod 65536 \<and>
            pd_dataSetWriterId (pubs_of sd1 ! i) mod 65536 = sd_subscribedDSWriterId (subs_of sd2 ! j) mod 65536)"
  using assms(3,4) setup_ids(1) [OF assms(1)] setup_ids(2) [OF assms(2)] by (auto simp: ids_meet)

text \<open>A publisher with an identifier, and the subscriber of the same configuration that asks for another.\<close>

definition ex_ids :: "int \<Rightarrow> int \<Rightarrow> server_data" where
  "ex_ids a b = ex_server\<lparr>s_pubData := Some [(pubs_of ex_server ! 0)\<lparr>pd_id := a\<rparr>],
     s_subData := Some [(subs_of ex_server ! 0)\<lparr>sd_subscribedPubId := b\<rparr>]\<rparr>"

theorem writers_meet_readers_witness:
  "\<exists>st. setupOpcuaServer (\<lambda>k. k) (0 :: nat) False True (\<lambda>_. (0, True)) (ex_ids 65537 1) = Some st \<and>
     writer_ids (rev (sv_calls (su_srv st))) = reader_ids (rev (sv_calls (su_srv st)))"
proof -
  obtain st where st: "setupOpcuaServer (\<lambda>k. k) (0 :: nat) False True (\<lambda>_. (0, True)) (ex_ids 65537 1) = Some st"
    using setup_runs [of "\<lambda>k. k" 0 False "\<lambda>_. (0, True)" "ex_ids 65537 1"] by blast
  have "length (pubs_of (ex_ids 65537 1)) = 1" "length (subs_of (ex_ids 65537 1)) = 1"
    by (simp_all add: ex_ids_def pubs_of_def subs_of_def)
  with writers_meet_readers [OF st st refl refl] st show ?thesis
    by (auto simp: list_eq_iff_nth_eq ex_ids_def pubs_of_def subs_of_def ex_server_def zero_pub_def zero_sub_def)
qed

end
