(* ===== verification/Spec2Isabelle.thy ===== *)
theory Spec2Isabelle
  imports Tsq_System Tsq_Signal Txrx_Main Txrx_Xdp_Run Opcua_Trip Opcua_Ids
begin

text \<open>
  A verification of the programs of Intel's reference software for time-sensitive networking: the
  C code under \<^verbatim>\<open>src/\<close>. Three programs measure how well clocks and packets keep their time.

  \<^item> \<^verbatim>\<open>tsq\<close> (\<^verbatim>\<open>tsq.c\<close>). Two talkers read time stamps of an external pulse from a PTP clock and send
    them over TCP; a listener pairs the samples of the two and logs how far the clocks differ.
  \<^item> \<^verbatim>\<open>txrx-tsn\<close> (\<^verbatim>\<open>txrx.c\<close>, \<^verbatim>\<open>txrx-afpkt.c\<close>, \<^verbatim>\<open>txrx-afxdp.c\<close>). A sender transmits numbered packets on
    a schedule over an AF\_PACKET or an AF\_XDP socket; a receiver reports their latencies.
  \<^item> \<^verbatim>\<open>opcua-server\<close> (\<^verbatim>\<open>opcua-tsn/\<close>). Publishers and subscribers of the OPC UA library are driven by
    the program's own cyclic threads; a measurement goes one way or there and back.

  \<^bold>\<open>Method.\<close> C functions are HOL functions over explicit state; a structure is a record, a buffer
  a list of bytes, an integer a word of its width where it can wrap and an \<open>int\<close> where the code
  keeps it in range. What the operating system and the libraries answer is an argument: a record
  of answers for straight-line code, one list element per iteration for a loop. A loop is
  \<open>iterate\<close> of its body over that list; \<open>Running\<close> says that the answers were used up before the
  loop ended, so a theorem that a loop ends asks for \<open>Done\<close>. Exits, crashes and reads outside an
  array are values. No fuel is used anywhere: recursions are structural or have a measure.

  \<^bold>\<open>Theories.\<close>

  \<^item> \<open>Prelude\<close>: words, loops, byte buffers and the contracts that the components instantiate
    (\<open>inv_loop\<close>, \<open>counting_loop\<close>, \<open>cyclic_loop\<close>, \<open>step_invariant\<close>, \<open>struct_codec\<close>).
  \<^item> \<open>CLib\<close>: the part of the C library the programs use: decimal and hexadecimal conversions with
    their round trips, \<open>timespec\<close> and its order.
  \<^item> \<open>Argp\<close>: command lines. \<open>argp_scan\<close> is the documented behaviour of the C library's \<^verbatim>\<open>argp_parse\<close> on a
    table of options (short options joined or apart, long options and their unambiguous
    abbreviations, \<^verbatim>\<open>--\<close>, the built-in help), without the variable \<^verbatim>\<open>POSIXLY_CORRECT\<close>; the contracts
    \<open>option_parser\<close> and \<open>option_table\<close> give, for a program's own table and parser, that the
    parser sees exactly the options that were written.
  \<^item> \<open>Tsq_Core\<close>, \<open>Tsq_Listener\<close>, \<open>Tsq_Talker\<close>, \<open>Tsq_Main\<close>, \<open>Tsq_Signal\<close>: the program \<^verbatim>\<open>tsq\<close>. The
    sampling loop of the listener refines an abstract listener with one pending sample per talker
    and at most one held sample; the talker sends every usable event once, in order; the two
    agree on the handshake and the messages. \<open>Tsq_Signal\<close> follows the halt flag and its mutex
    through nested signal handlers, statement by statement.
  \<^item> \<open>Tsq_System\<close>: two talkers, the two byte streams and the listener of \<^verbatim>\<open>tsq\<close> in any interleaving. No
    line of the output comes from a read that is out of line with the messages, and while the
    listener keeps up no second is lost.
  \<^item> \<open>Txrx_Options\<close>, \<open>Txrx_Packet\<close>, \<open>Txrx_Afpkt\<close>, \<open>Txrx_Afxdp\<close>, \<open>Txrx_Main\<close>: the program \<^verbatim>\<open>txrx-tsn\<close>. Its
    options stay in their ranges; the senders keep a schedule without drift, send what was asked
    for and end; what they send is what the receivers report; the AF\_XDP sender stays inside its
    packet memory and never loses count of its descriptors.
  \<^item> \<open>Txrx_Xdp_Run\<close>: whole runs over AF\_XDP. The descriptors keep a schedule without drift and take
    the frames in turn, a frame stays as it was submitted for 4095 more iterations, and a sender
    and a receiver together run from the first packet to the end of both.
  \<^item> \<open>Log_Files\<close>: the copies of the clock daemons' logs around a measurement, shared by \<^verbatim>\<open>txrx.c\<close> and
    \<^verbatim>\<open>multicallback_server.c\<close>.
  \<^item> \<open>Opcua_Config\<close> (\<^verbatim>\<open>json_helper.c\<close>, \<^verbatim>\<open>opcua_common.c\<close>): the configuration and its ranges, and that
    nothing is released twice.
  \<^item> \<open>Opcua_Datasource\<close> (\<^verbatim>\<open>opcua_datasource.c\<close>): the callbacks. A one-way measurement leaves one line
    per packet and ends; a round trip logs latencies that add up.
  \<^item> \<open>Opcua_Roundtrip\<close>: the callbacks of the returning side as two interleaved threads that share
    the message queue; what is sent back was received, in order, once.
  \<^item> \<open>Opcua_Trip\<close>: the whole round trip, two servers and the paths between them, in any interleaving
    and with losses: what is logged at the end was published at the start, and how it ends.
  \<^item> \<open>Opcua_Custom\<close> (\<^verbatim>\<open>opcua_custom.c\<close>): the cyclic threads keep their schedules without drift;
    registration of threads stays inside its arrays; \<^verbatim>\<open>normalize\<close> is division with remainder.
  \<^item> \<open>Opcua_System\<close>: the loops of the threads with the callbacks they cause, over a library that
    publishes and receives once per call: a one-way measurement from the first packet to the end
    of both threads.
  \<^item> \<open>Opcua_Server\<close> (\<^verbatim>\<open>opcua_publish.c\<close>, \<^verbatim>\<open>opcua_subscribe.c\<close>, \<^verbatim>\<open>multicallback_server.c\<close>): the calls that
    put the server together name only objects made before, of the right kind; the program runs
    to its end and joins the threads it started.
  \<^item> \<open>Opcua_Ids\<close>: which subscribers ask for the messages of which publishers, read off those calls.

  \<^bold>\<open>Bounds.\<close> Where a theorem limits a quantity, the limit is one the code enforces (ranges of
  options and of the configuration, six threads) or the width of a type: seconds since the epoch
  below \<open>2 ^ 32\<close> and at most \<open>2 ^ 32\<close> cycles, so that nanoseconds fit in 64 bits, and \<open>2 ^ 24\<close> samples of a talker, so that the bytes of
  a sequence number are not mistaken for an identifier.

  \<^bold>\<open>Defects.\<close> Some theorems state what the code does where this is not what it is meant to do: the
  start command on standard input, the hang in the signal handler, the lost second sample, the
  frames shared by transmission and reception, the packet that a full ring overwrites, the set-up
  failures of AF\_XDP, the transport layers beyond the allocated ones, the subscriber on the wrong
  connection, the round trip that ends with its first packet, and the identifiers that are equal
  only modulo \<open>2 ^ 16\<close>. Some of them are numbered properties, the others are named for what goes wrong.

  \<^bold>\<open>Not modelled.\<close> The libraries open62541, libbpf and json-c and the kernel are arguments; so is the
  delivery of packets, except where a theorem names a path (in order, VLAN tag stripped; in order
  with losses in \<open>Opcua_Trip\<close>; a message of \<^verbatim>\<open>tsq\<close> is in its connection as a whole or not at all). Data
  races between threads are not modelled below the granularity of one callback, apart from the
  mutex in \<open>Tsq_Signal\<close> and the attempts on the message queue in \<open>Opcua_Roundtrip\<close>. The copy of an
  array into a value of the library is taken to succeed. Text that is only printed for debugging,
  the logging macros of \<^verbatim>\<open>opcua_utils.h\<close>, the copies of library structures in \<^verbatim>\<open>opcua_custom.h\<close>, and the
  scripts, configuration files and patches of the repository are left out.
\<close>

end
